theory Spec2Isabelle
  imports Main "HOL-Library.Char_ord" "HOL-Library.List_Lexorder"
begin

section \<open>JavaScript strings\<close>

text \<open>
  A JavaScript string is modelled as a \<^typ>\<open>string\<close>, one \<^typ>\<open>char\<close> per UTF-16 code
  unit; the model therefore covers the strings whose code units are below 256 (ASCII and
  Latin-1). Such strings survive the UTF-8 encoding of \<^verbatim>\<open>fs.writeFileSync\<close> and the
  decoding of \<^verbatim>\<open>fs.readFileSync\<close> unchanged. Strings are compared as JavaScript and
  SQLite compare them: lexicographically by code unit, a proper prefix being smaller.
\<close>

text \<open>
  \<^verbatim>\<open>String.prototype.trim\<close> removes white space and line terminators from both ends.
  Below 256 these are TAB, LF, VT, FF, CR, SPACE and NBSP.
\<close>

definition is_space :: "char \<Rightarrow> bool" where
  "is_space c \<longleftrightarrow>
     c \<in> set [CHR 0x09, CHR 0x0A, CHR 0x0B, CHR 0x0C, CHR 0x0D, CHR 0x20, CHR 0xA0]"

definition js_trim :: "string \<Rightarrow> string" where
  "js_trim s = rev (dropWhile is_space (rev (dropWhile is_space s)))"

text \<open>\<^verbatim>\<open>s.startsWith(p)\<close>.\<close>

definition startsWith :: "string \<Rightarrow> string \<Rightarrow> bool" where
  "startsWith s p \<longleftrightarrow> take (length p) s = p"

text \<open>\<^verbatim>\<open>s.endsWith(p)\<close>.\<close>

definition endsWith :: "string \<Rightarrow> string \<Rightarrow> bool" where
  "endsWith s p \<longleftrightarrow> length p \<le> length s \<and> drop (length s - length p) s = p"

section \<open>The router: data model\<close>

text \<open>
  \<^verbatim>\<open>NewMessage\<close> of \<^verbatim>\<open>types.ts\<close>; the optional flags \<^verbatim>\<open>is_from_me\<close> and
  \<^verbatim>\<open>is_bot_message\<close> are \<^term>\<open>False\<close> when absent.
\<close>

record message =
  msg_id :: string
  chat_jid :: string
  sender :: string
  sender_name :: string
  content :: string
  timestamp :: string
  is_from_me :: bool
  is_bot_message :: bool

record registered_group =
  group_name :: string
  folder :: string

text \<open>
  A channel of \<^verbatim>\<open>index.ts\<close>'s \<^verbatim>\<open>channels\<close> array, by the capabilities the router uses:
  \<^verbatim>\<open>ownsJid\<close>, and whether the optional \<^verbatim>\<open>setTyping\<close> is there.
\<close>

record channel =
  channel_name :: string
  ownsJid :: "string \<Rightarrow> bool"
  has_setTyping :: bool

text \<open>\<^verbatim>\<open>ContainerOutput\<close>: the status of a record and its \<^verbatim>\<open>result\<close> payload.\<close>

datatype status = Success | Error | Progress

text \<open>
  \<^verbatim>\<open>result\<close> is \<^verbatim>\<open>null\<close>, a string, or an object; an object is carried as the text
  \<^verbatim>\<open>JSON.stringify\<close> gives for it.
\<close>

datatype agent_result = RNull | RString string | RObject string

record container_output =
  out_status :: status
  out_result :: agent_result
  newSessionId :: "string option"

text \<open>
  The module's mutable globals \<^verbatim>\<open>lastTimestamp\<close>, \<^verbatim>\<open>lastAgentTimestamp\<close> and
  \<^verbatim>\<open>sessions\<close>, and the two router-state rows of the database that
  \<^verbatim>\<open>saveState\<close> writes (\<^verbatim>\<open>last_timestamp\<close> and \<^verbatim>\<open>last_agent_timestamp\<close>, the
  latter the JSON text of the map, kept here as the map it encodes).
\<close>

record router_state =
  lastTimestamp :: string
  lastAgentTimestamp :: "string \<rightharpoonup> string"
  sessions :: "string \<rightharpoonup> string"
  db_last_timestamp :: string
  db_last_agent_timestamp :: "string \<rightharpoonup> string"

text \<open>
  What the router only reads or calls: the configuration constants, the registered
  groups (in \<^verbatim>\<open>Object.keys\<close> order), the channels, and the collaborators whose code is
  in other modules: the two store queries of \<^verbatim>\<open>db.ts\<close>, \<^verbatim>\<open>formatMessages\<close> of
  \<^verbatim>\<open>router.ts\<close> (the prompt type \<^typ>\<open>'p\<close> is what it returns), and the answer of
  \<^verbatim>\<open>queue.sendMessage\<close> of \<^verbatim>\<open>group-queue.ts\<close>. They are parameters: a theorem about
  the router holds whatever they compute.
\<close>

record 'p env =
  ASSISTANT_NAME :: string
  MAIN_GROUP_FOLDER :: string
  IDLE_TIMEOUT :: nat
  registeredGroups :: "(string \<times> registered_group) list"
  channels :: "channel list"
  getMessagesSince :: "string \<Rightarrow> string \<Rightarrow> string \<Rightarrow> message list"
  getNewMessages :: "string list \<Rightarrow> string \<Rightarrow> string \<Rightarrow> message list \<times> string"
  formatMessages :: "message list \<Rightarrow> 'p"
  queue_sendMessage :: "string \<Rightarrow> 'p \<Rightarrow> bool"

text \<open>
  The effects of the router on the outside, in the order they happen. Log lines are
  left out. \<open>SaveState\<close> carries the two values written to the database.
\<close>

datatype 'p event =
    SaveState string "string \<rightharpoonup> string"
  | SetTyping string string bool
  | ChannelSend string string string
  | WriteTasksSnapshot string bool
  | WriteGroupsSnapshot string bool
  | RunContainerAgent string 'p "string option"
  | SetSession string string
  | SetTimeout string nat
  | ClearTimeout string
  | CloseStdin string
  | NotifyIdle string
  | QueueSendMessage string 'p bool
  | EnqueueMessageCheck string

text \<open>
  The local \<^verbatim>\<open>idleTimer\<close> of \<^verbatim>\<open>processGroupMessages\<close>: \<^verbatim>\<open>null\<close>, a timeout
  that is pending, or the handle of a timeout that has fired (still truthy).
\<close>

datatype idle_timer = NoTimer | Pending | Expired

record cb_state =
  idleTimer :: idle_timer
  hadError :: bool
  outputSentToUser :: bool

text \<open>
  What one run of the container agent does, as \<^verbatim>\<open>runAgent\<close> sees it: the records it
  streams, in order, and the output \<^verbatim>\<open>runContainerAgent\<close> resolves with
  (\<^term>\<open>None\<close> when it throws). Between two records, and between the last record and
  the end of the run, \<^verbatim>\<open>IDLE_TIMEOUT\<close> milliseconds may pass without the timer being
  cleared: \<open>IdleElapsed\<close> marks such a moment. Calls of the channel, of the database and
  of the snapshot writers are taken to return normally, and no other task changes the
  globals while the function waits.
\<close>

datatype stream_item = Output container_output | IdleElapsed

record agent_run =
  stream :: "stream_item list"
  final :: "container_output option"

datatype agent_exit = ExitSuccess | ExitError

section \<open>The router: operations\<close>

text \<open>\<^verbatim>\<open>lastAgentTimestamp[chatJid] || ''\<close>.\<close>

definition cursor :: "(string \<rightharpoonup> string) \<Rightarrow> string \<Rightarrow> string" where
  "cursor m jid = (case m jid of None \<Rightarrow> [] | Some t \<Rightarrow> t)"

definition saveState :: "router_state \<Rightarrow> router_state \<times> 'p event list" where
  "saveState s =
     (s\<lparr>db_last_timestamp := lastTimestamp s,
        db_last_agent_timestamp := lastAgentTimestamp s\<rparr>,
      [SaveState (lastTimestamp s) (lastAgentTimestamp s)])"

text \<open>
  Modelled from the spec: \<^verbatim>\<open>findChannel\<close> of \<^verbatim>\<open>router.ts\<close>, which is not among the
  sources. The spec routes "by first-match \<^verbatim>\<open>ownsJid\<close>".
\<close>

definition findChannel :: "channel list \<Rightarrow> string \<Rightarrow> channel option" where
  "findChannel chs jid = find (\<lambda>c. ownsJid c jid) chs"

text \<open>\<^verbatim>\<open>channel.setTyping?.(chatJid, flag)\<close>: nothing happens when the channel has none.\<close>

definition setTyping :: "channel \<Rightarrow> string \<Rightarrow> bool \<Rightarrow> 'p event list" where
  "setTyping ch jid flag =
     (if has_setTyping ch then [SetTyping (channel_name ch) jid flag] else [])"

text \<open>
  \<^verbatim>\<open>raw.replace(/<internal>[\s\S]*?<\/internal>/g, '')\<close>: scanning from the left,
  each \<^verbatim>\<open><internal>\<close> that has a closing tag after it is removed up to the first such
  closing tag. \<open>after_close t\<close> is what follows the first closing tag in \<open>t\<close>.
\<close>

fun after_close :: "string \<Rightarrow> string option" where
  "after_close [] = None"
| "after_close (c # cs) =
     (if take 11 (c # cs) = ''</internal>'' then Some (drop 11 (c # cs))
      else after_close cs)"

function strip_internal :: "string \<Rightarrow> string" where
  "strip_internal [] = []"
| "strip_internal (c # cs) =
     (if take 10 (c # cs) = ''<internal>'' then
        (case after_close (drop 10 (c # cs)) of
           Some rest \<Rightarrow> strip_internal rest
         | None \<Rightarrow> c # strip_internal cs)
      else c # strip_internal cs)"
  by pat_completeness auto
termination
proof (relation "measure length")
  show "wf (measure length)" by simp
next
  fix c :: char and cs rest :: string
  assume "after_close (drop 10 (c # cs)) = Some rest"
  moreover have "after_close t = Some r \<Longrightarrow> length r \<le> length t" for t r
  proof (induction t)
    case Nil
    then show ?case by simp
  next
    case (Cons a t)
    then show ?case by (auto split: if_splits)
  qed
  ultimately have "length rest \<le> length (drop 10 (c # cs))" by blast
  then show "(rest, c # cs) \<in> measure length" by simp
qed auto

text \<open>\<^verbatim>\<open>if (result.result)\<close>: \<^verbatim>\<open>null\<close> and the empty string are falsy.\<close>

fun truthy :: "agent_result \<Rightarrow> bool" where
  "truthy RNull = False"
| "truthy (RString s) = (s \<noteq> [])"
| "truthy (RObject j) = True"

fun raw_text :: "agent_result \<Rightarrow> string" where
  "raw_text RNull = []"
| "raw_text (RString s) = s"
| "raw_text (RObject j) = j"

text \<open>
  \<^verbatim>\<open>resetIdleTimer\<close>: clear the timer if there is one, then arm a new one with delay
  \<^verbatim>\<open>IDLE_TIMEOUT\<close>.
\<close>

definition resetIdleTimer :: "nat \<Rightarrow> string \<Rightarrow> idle_timer \<Rightarrow> idle_timer \<times> 'p event list" where
  "resetIdleTimer delay jid t =
     (Pending, (if t \<noteq> NoTimer then [ClearTimeout jid] else []) @ [SetTimeout jid delay])"

text \<open>
  The callback of the timeout (\<^verbatim>\<open>index.ts\<close> lines 185 to 191). It runs only when the
  timer is pending; the handle stays in \<^verbatim>\<open>idleTimer\<close>.
\<close>

definition idleExpired :: "string \<Rightarrow> idle_timer \<Rightarrow> idle_timer \<times> 'p event list" where
  "idleExpired jid t = (if t = Pending then (Expired, [CloseStdin jid]) else (t, []))"

text \<open>The streaming callback that \<^verbatim>\<open>processGroupMessages\<close> passes to \<^verbatim>\<open>runAgent\<close>.\<close>

definition onOutput ::
  "nat \<Rightarrow> channel \<Rightarrow> string \<Rightarrow> cb_state \<Rightarrow> container_output \<Rightarrow> cb_state \<times> 'p event list" where
  "onOutput delay ch chatJid st result =
     (let (st1, ev1) =
            (if truthy (out_result result) then
               (let text = js_trim (strip_internal (raw_text (out_result result)));
                    (st_s, ev_s) =
                      (if text \<noteq> [] then
                         (st\<lparr>outputSentToUser := True\<rparr>,
                          [ChannelSend (channel_name ch) chatJid text])
                       else (st, []));
                    (t, ev_t) = resetIdleTimer delay chatJid (idleTimer st_s)
                in (st_s\<lparr>idleTimer := t\<rparr>, ev_s @ ev_t))
             else (st, []));
          ev2 = (if out_status result = Success then [NotifyIdle chatJid] else []);
          st2 = (if out_status result = Error then st1\<lparr>hadError := True\<rparr> else st1)
      in (st2, ev1 @ ev2))"

text \<open>
  \<^verbatim>\<open>if (output.newSessionId)\<close> in \<^verbatim>\<open>runAgent\<close>: a non-empty session id is stored in
  \<^verbatim>\<open>sessions\<close> and in the database.
\<close>

definition trackSession ::
  "registered_group \<Rightarrow> container_output \<Rightarrow> router_state \<Rightarrow> router_state \<times> 'p event list" where
  "trackSession grp out s =
     (case newSessionId out of
        None \<Rightarrow> (s, [])
      | Some sid \<Rightarrow>
          (if sid = [] then (s, [])
           else (s\<lparr>sessions := (sessions s)(folder grp \<mapsto> sid)\<rparr>,
                 [SetSession (folder grp) sid])))"

text \<open>
  The records of a run, in order: \<^verbatim>\<open>wrappedOnOutput\<close> for each record, and the timeout's
  callback where the idle time elapses.
\<close>

fun process_stream ::
  "nat \<Rightarrow> channel \<Rightarrow> registered_group \<Rightarrow> string \<Rightarrow> stream_item list \<Rightarrow>
   router_state \<Rightarrow> cb_state \<Rightarrow> router_state \<times> cb_state \<times> 'p event list" where
  "process_stream delay ch grp chatJid [] s st = (s, st, [])"
| "process_stream delay ch grp chatJid (Output out # rest) s st =
     (let (s1, ev1) = trackSession grp out s;
          (st1, ev2) = onOutput delay ch chatJid st out;
          (s2, st2, ev3) = process_stream delay ch grp chatJid rest s1 st1
      in (s2, st2, ev1 @ ev2 @ ev3))"
| "process_stream delay ch grp chatJid (IdleElapsed # rest) s st =
     (let (t, ev1) = idleExpired chatJid (idleTimer st);
          (s2, st2, ev3) = process_stream delay ch grp chatJid rest s (st\<lparr>idleTimer := t\<rparr>)
      in (s2, st2, ev1 @ ev3))"

text \<open>
  \<^verbatim>\<open>runAgent\<close>: the two snapshots are written, the container agent is started with the
  prompt and the group's session, its records are handled as they arrive, and its
  output decides between \<^verbatim>\<open>'success'\<close> and \<^verbatim>\<open>'error'\<close>; an exception of
  \<^verbatim>\<open>runContainerAgent\<close> is an \<^verbatim>\<open>'error'\<close> too.
\<close>

definition runAgent ::
  "'p env \<Rightarrow> channel \<Rightarrow> registered_group \<Rightarrow> 'p \<Rightarrow> string \<Rightarrow> agent_run \<Rightarrow>
   router_state \<Rightarrow> cb_state \<Rightarrow> agent_exit \<times> router_state \<times> cb_state \<times> 'p event list" where
  "runAgent e ch grp prompt chatJid run s st =
     (let isMain = (folder grp = MAIN_GROUP_FOLDER e);
          sessionId = sessions s (folder grp);
          ev0 = [WriteTasksSnapshot (folder grp) isMain,
                 WriteGroupsSnapshot (folder grp) isMain,
                 RunContainerAgent chatJid prompt sessionId];
          (s1, st1, ev1) = process_stream (IDLE_TIMEOUT e) ch grp chatJid (stream run) s st
      in (case final run of
            None \<Rightarrow> (ExitError, s1, st1, ev0 @ ev1)
          | Some out \<Rightarrow>
              (let (s2, ev2) = trackSession grp out s1
               in (if out_status out = Error then ExitError else ExitSuccess,
                   s2, st1, ev0 @ ev1 @ ev2))))"

text \<open>
  \<^verbatim>\<open>processGroupMessages\<close>. The result is what the promise resolves to, the globals
  afterwards, and the effects in order.
\<close>

definition processGroupMessages ::
  "'p env \<Rightarrow> agent_run \<Rightarrow> router_state \<Rightarrow> string \<Rightarrow> bool \<times> router_state \<times> 'p event list" where
  "processGroupMessages e run s chatJid =
     (case map_of (registeredGroups e) chatJid of
        None \<Rightarrow> (True, s, [])
      | Some grp \<Rightarrow>
          (case findChannel (channels e) chatJid of
             None \<Rightarrow> (True, s, [])
           | Some ch \<Rightarrow>
               (let sinceTimestamp = cursor (lastAgentTimestamp s) chatJid;
                    missedMessages = getMessagesSince e chatJid sinceTimestamp (ASSISTANT_NAME e)
                in if length missedMessages = 0 then (True, s, [])
                   else
                     (let prompt = formatMessages e missedMessages;
                          previousCursor = cursor (lastAgentTimestamp s) chatJid;
                          (s1, ev1) = saveState
                            (s\<lparr>lastAgentTimestamp :=
                                 (lastAgentTimestamp s)(chatJid \<mapsto> timestamp (last missedMessages))\<rparr>);
                          ev2 = setTyping ch chatJid True;
                          (output, s2, st, ev3) =
                            runAgent e ch grp prompt chatJid run s1
                              \<lparr>idleTimer = NoTimer, hadError = False, outputSentToUser = False\<rparr>;
                          ev4 = setTyping ch chatJid False;
                          ev5 = (if idleTimer st \<noteq> NoTimer then [ClearTimeout chatJid] else []);
                          evs = ev1 @ ev2 @ ev3 @ ev4 @ ev5
                      in if output = ExitError \<or> hadError st then
                           (if outputSentToUser st then (True, s2, evs)
                            else
                              (let (s3, ev6) = saveState
                                     (s2\<lparr>lastAgentTimestamp :=
                                          (lastAgentTimestamp s2)(chatJid \<mapsto> previousCursor)\<rparr>)
                               in (False, s3, evs @ ev6)))
                         else (True, s2, evs)))))"

section \<open>The message store\<close>

text \<open>
  Modelled from the spec: \<^verbatim>\<open>getMessagesSince\<close> and \<^verbatim>\<open>getNewMessages\<close> of
  \<^verbatim>\<open>db.ts\<close>, which is not among the sources. The store is "an append-only,
  timestamp-ordered log of messages per chat"; \<^verbatim>\<open>getMessagesSince\<close> gives "all pending
  messages for that group", a message with \<^verbatim>\<open>is_bot_message=true\<close> "is never counted as
  pending work", and \<^verbatim>\<open>getNewMessages\<close> gives "every row whose
  \<^verbatim>\<open>timestamp > last_timestamp\<close>, belonging to a registered JID, excluding bot-authored
  rows", with \<^verbatim>\<open>newTimestamp\<close> "the maximum observed". \<open>rows\<close> is the message table
  in insertion order; ties in the timestamp keep that order.
\<close>

definition store_getMessagesSince :: "message list \<Rightarrow> string \<Rightarrow> string \<Rightarrow> string \<Rightarrow> message list" where
  "store_getMessagesSince rows chatJid since botPrefix =
     sort_key timestamp
       (filter (\<lambda>m. chat_jid m = chatJid \<and> since < timestamp m \<and> \<not> is_bot_message m) rows)"

definition store_getNewMessages ::
  "message list \<Rightarrow> string list \<Rightarrow> string \<Rightarrow> string \<Rightarrow> message list \<times> string" where
  "store_getNewMessages rows jids since botPrefix =
     (let messages = sort_key timestamp
            (filter (\<lambda>m. since < timestamp m \<and> chat_jid m \<in> set jids \<and> \<not> is_bot_message m) rows)
      in (messages, fold (\<lambda>m t. max (timestamp m) t) messages since))"

section \<open>What a run of the agent amounts to\<close>

text \<open>
  The records of a stream; whether a record makes the callback send text to the channel;
  whether a run ends with terminal status error (\<^verbatim>\<open>output === 'error' || hadError\<close>);
  whether any of its records makes the callback send text.
\<close>

definition outputs_of :: "stream_item list \<Rightarrow> container_output list" where
  "outputs_of items = concat (map (\<lambda>i. case i of Output r \<Rightarrow> [r] | IdleElapsed \<Rightarrow> []) items)"

definition sends_text :: "container_output \<Rightarrow> bool" where
  "sends_text r \<longleftrightarrow>
     truthy (out_result r) \<and> js_trim (strip_internal (raw_text (out_result r))) \<noteq> []"

definition run_errors :: "agent_run \<Rightarrow> bool" where
  "run_errors run \<longleftrightarrow>
     (case final run of None \<Rightarrow> True | Some out \<Rightarrow> out_status out = Error) \<or>
     (\<exists>r \<in> set (outputs_of (stream run)). out_status r = Error)"

definition run_sends_output :: "agent_run \<Rightarrow> bool" where
  "run_sends_output run \<longleftrightarrow> (\<exists>r \<in> set (outputs_of (stream run)). sends_text r)"

text \<open>Whether an effect is a write of the cursors to the database.\<close>

definition is_SaveState :: "'p event \<Rightarrow> bool" where
  "is_SaveState ev = (case ev of SaveState a b \<Rightarrow> True | _ \<Rightarrow> False)"



section \<open>The message loop\<close>

text \<open>
  How the body of one iteration ends: normally, or with the \<^verbatim>\<open>TypeError\<close> of reading
  \<^verbatim>\<open>.timestamp\<close> of \<^verbatim>\<open>undefined\<close> (an empty \<^verbatim>\<open>messagesToSend\<close>), which the loop's
  \<^verbatim>\<open>try\<close>/\<^verbatim>\<open>catch\<close> logs.
\<close>

datatype outcome = Completed | Threw

text \<open>
  \<^verbatim>\<open>messagesByGroup\<close> (\<^verbatim>\<open>index.ts\<close> lines 358 to 366): a \<^verbatim>\<open>Map\<close> from JID to the
  messages of that chat, the JIDs in the order in which they first appear.
\<close>

fun group_insert :: "message \<Rightarrow> (string \<times> message list) list \<Rightarrow> (string \<times> message list) list" where
  "group_insert msg [] = [(chat_jid msg, [msg])]"
| "group_insert msg ((jid, existing) # rest) =
     (if jid = chat_jid msg then (jid, existing @ [msg]) # rest
      else (jid, existing) # group_insert msg rest)"

definition messagesByGroup :: "message list \<Rightarrow> (string \<times> message list) list" where
  "messagesByGroup messages = fold group_insert messages []"

text \<open>\<^verbatim>\<open>allPending.length > 0 ? allPending : groupMessages\<close> (lines 391 and 392).\<close>

definition messagesToSend :: "message list \<Rightarrow> message list \<Rightarrow> message list" where
  "messagesToSend allPending groupMessages =
     (if length allPending > 0 then allPending else groupMessages)"

text \<open>The body of the loop over the groups (lines 368 to 413), for one group.\<close>

definition routeGroup ::
  "'p env \<Rightarrow> router_state \<Rightarrow> string \<Rightarrow> message list \<Rightarrow> outcome \<times> router_state \<times> 'p event list" where
  "routeGroup e s chatJid groupMessages =
     (case map_of (registeredGroups e) chatJid of
        None \<Rightarrow> (Completed, s, [])
      | Some grp \<Rightarrow>
          (case findChannel (channels e) chatJid of
             None \<Rightarrow> (Completed, s, [])
           | Some ch \<Rightarrow>
               (let allPending = getMessagesSince e chatJid
                      (cursor (lastAgentTimestamp s) chatJid) (ASSISTANT_NAME e);
                    toSend = messagesToSend allPending groupMessages;
                    formatted = formatMessages e toSend
                in if queue_sendMessage e chatJid formatted then
                     (if toSend = [] then
                        (Threw, s, [QueueSendMessage chatJid formatted True])
                      else
                        (let (s1, ev) = saveState
                               (s\<lparr>lastAgentTimestamp :=
                                    (lastAgentTimestamp s)(chatJid \<mapsto> timestamp (last toSend))\<rparr>)
                         in (Completed, s1,
                             QueueSendMessage chatJid formatted True # ev @ setTyping ch chatJid True)))
                   else
                     (Completed, s,
                      [QueueSendMessage chatJid formatted False, EnqueueMessageCheck chatJid]))))"

text \<open>The loop over the groups; an exception leaves it.\<close>

fun routeGroups ::
  "'p env \<Rightarrow> (string \<times> message list) list \<Rightarrow> router_state \<Rightarrow> outcome \<times> router_state \<times> 'p event list" where
  "routeGroups e [] s = (Completed, s, [])"
| "routeGroups e ((chatJid, groupMessages) # rest) s =
     (case routeGroup e s chatJid groupMessages of
        (Threw, s1, ev1) \<Rightarrow> (Threw, s1, ev1)
      | (Completed, s1, ev1) \<Rightarrow>
          (case routeGroups e rest s1 of (oc, s2, ev2) \<Rightarrow> (oc, s2, ev1 @ ev2)))"

text \<open>One iteration of \<^verbatim>\<open>startMessageLoop\<close>: the body of its \<^verbatim>\<open>try\<close> block.\<close>

definition messageLoopIteration ::
  "'p env \<Rightarrow> router_state \<Rightarrow> outcome \<times> router_state \<times> 'p event list" where
  "messageLoopIteration e s =
     (let jids = map fst (registeredGroups e);
          (messages, newTimestamp) = getNewMessages e jids (lastTimestamp s) (ASSISTANT_NAME e)
      in if length messages > 0 then
           (let (s1, ev1) = saveState (s\<lparr>lastTimestamp := newTimestamp\<rparr>);
                (oc, s2, ev2) = routeGroups e (messagesByGroup messages) s1
            in (oc, s2, ev1 @ ev2))
         else (Completed, s, []))"

text \<open>
  The globals over time. \<^verbatim>\<open>startMessageLoop\<close> never returns; between two of its
  iterations the queue may call \<^verbatim>\<open>processGroupMessages\<close>. A turn is one iteration of
  the loop or one such call, each with the environment it meets; \<open>runRouter\<close> runs a
  finite sequence of turns.
\<close>

datatype 'p turn = Poll "'p env" | Work "'p env" agent_run string

fun runRouter :: "'p turn list \<Rightarrow> router_state \<Rightarrow> router_state \<times> 'p event list" where
  "runRouter [] s = (s, [])"
| "runRouter (Poll e # turns) s =
     (case messageLoopIteration e s of
        (oc, s1, ev1) \<Rightarrow> (case runRouter turns s1 of (s2, ev2) \<Rightarrow> (s2, ev1 @ ev2)))"
| "runRouter (Work e run chatJid # turns) s =
     (case processGroupMessages e run s chatJid of
        (ok, s1, ev1) \<Rightarrow> (case runRouter turns s1 of (s2, ev2) \<Rightarrow> (s2, ev1 @ ev2)))"

text \<open>A poll whose \<^verbatim>\<open>getNewMessages\<close> is the store's, on some message table.\<close>

definition store_backed :: "'p turn \<Rightarrow> bool" where
  "store_backed t =
     (case t of Poll e \<Rightarrow> (\<exists>rows. getNewMessages e = store_getNewMessages rows)
      | Work e run chatJid \<Rightarrow> True)"

section \<open>A registered Telegram group\<close>

text \<open>
  The setting of the spec's end-to-end scenarios: group \<open>G\<close> registered at JID
  \<^verbatim>\<open>tg:100\<close>, the Telegram channel (\<^verbatim>\<open>ownsJid\<close> is \<^verbatim>\<open>jid.startsWith('tg:')\<close>), a
  store holding the given rows. The prompt is represented by the list of messages that
  was formatted.
\<close>

definition example_group :: registered_group where
  "example_group = \<lparr>group_name = ''G'', folder = ''g''\<rparr>"

definition telegram_channel :: channel where
  "telegram_channel =
     \<lparr>channel_name = ''telegram'', ownsJid = (\<lambda>jid. startsWith jid ''tg:''), has_setTyping = True\<rparr>"

definition example_message :: "string \<Rightarrow> string \<Rightarrow> message" where
  "example_message ts txt =
     \<lparr>msg_id = ts, chat_jid = ''tg:100'', sender = ''42'', sender_name = ''Alice'',
      content = txt, timestamp = ts, is_from_me = False, is_bot_message = False\<rparr>"

definition example_rows :: "message list" where
  "example_rows = [example_message ''1'' ''hi'', example_message ''2'' ''how are you'']"

definition example_env :: "message list \<Rightarrow> bool \<Rightarrow> (message list) env" where
  "example_env rows alive =
     \<lparr>ASSISTANT_NAME = ''Andy'', MAIN_GROUP_FOLDER = ''main'', IDLE_TIMEOUT = 1800000,
      registeredGroups = [(''tg:100'', example_group)], channels = [telegram_channel],
      getMessagesSince = store_getMessagesSince rows,
      getNewMessages = store_getNewMessages rows,
      formatMessages = (\<lambda>ms. ms), queue_sendMessage = (\<lambda>jid prompt. alive)\<rparr>"

definition example_state :: "string \<Rightarrow> string \<Rightarrow> router_state" where
  "example_state seen agent_seen =
     \<lparr>lastTimestamp = seen, lastAgentTimestamp = [''tg:100'' \<mapsto> agent_seen],
      sessions = Map.empty, db_last_timestamp = seen,
      db_last_agent_timestamp = [''tg:100'' \<mapsto> agent_seen]\<rparr>"

definition record_of :: "status \<Rightarrow> agent_result \<Rightarrow> container_output" where
  "record_of st r = \<lparr>out_status = st, out_result = r, newSessionId = None\<rparr>"

section \<open>The singleton lock\<close>





text \<open>The decimal digits of \<^verbatim>\<open>process.pid\<close> in the template \<^verbatim>\<open>`${process.pid}\n`\<close>.\<close>

fun digits_of :: "nat \<Rightarrow> string" where
  "digits_of n =
     (if n < 10 then [''0123456789'' ! n]
      else digits_of (n div 10) @ [''0123456789'' ! (n mod 10)])"








section \<open>The Telegram channel: \<^verbatim>\<open>sendMessage\<close>\<close>

text \<open>
  The text to send is a list of UTF-16 code units of any type \<^typ>\<open>'u\<close>: its
  \<^verbatim>\<open>length\<close> and \<^verbatim>\<open>slice\<close> count code units, whatever they are. \<open>bot_info\<close> is
  \<^verbatim>\<open>this.bot.botInfo\<close>, \<open>outgoing\<close> the \<^verbatim>\<open>NewMessage\<close> handed to
  \<^verbatim>\<open>onOutgoingMessage\<close>.
\<close>

record bot_info =
  bot_id :: nat
  bot_username :: "string option"

record 'u outgoing =
  o_id :: string
  o_chat_jid :: string
  o_sender :: string
  o_sender_name :: string
  o_content :: "'u list"
  o_timestamp :: string
  o_is_from_me :: bool
  o_is_bot_message :: bool

text \<open>
  The channel object and what it meets: \<^verbatim>\<open>this.bot\<close> (\<^term>\<open>None\<close> before
  \<^verbatim>\<open>connect\<close>), whether \<^verbatim>\<open>onOutgoingMessage\<close> was given, the Telegram API (the
  message id that the \<open>k\<close>-th call of \<^verbatim>\<open>bot.api.sendMessage\<close> in this invocation
  returns, \<^term>\<open>None\<close> when it throws), and the clock.
\<close>

record 'u telegram =
  bot :: "bot_info option"
  onOutgoing :: bool
  api_sendMessage :: "nat \<Rightarrow> string \<Rightarrow> 'u list \<Rightarrow> nat option"
  now :: string

text \<open>The calls of the API with their results, the stored messages and the log lines.\<close>

datatype 'u tg_event =
    ApiSendMessage string "'u list" "nat option"
  | OnOutgoingMessage string "'u outgoing"
  | LogWarnNotInitialized
  | LogInfoSent string nat
  | LogErrorFailed string

definition MAX_LENGTH :: nat where
  "MAX_LENGTH = 4096"

text \<open>\<^verbatim>\<open>jid.replace(/^tg:/, '')\<close>.\<close>

definition numericId :: "string \<Rightarrow> string" where
  "numericId jid = (if startsWith jid ''tg:'' then drop 3 jid else jid)"

text \<open>The message object of lines 355 to 364 and 371 to 380.\<close>

definition outgoing_of :: "'u telegram \<Rightarrow> bot_info \<Rightarrow> string \<Rightarrow> 'u list \<Rightarrow> nat \<Rightarrow> 'u outgoing" where
  "outgoing_of tg b jid text message_id =
     \<lparr>o_id = digits_of message_id, o_chat_jid = jid, o_sender = digits_of (bot_id b),
      o_sender_name =
        (case bot_username b of None \<Rightarrow> ''Bot'' | Some u \<Rightarrow> if u = [] then ''Bot'' else u),
      o_content = text, o_timestamp = now tg, o_is_from_me = True, o_is_bot_message = True\<rparr>"

definition storeOutgoing ::
  "'u telegram \<Rightarrow> bot_info \<Rightarrow> string \<Rightarrow> 'u list \<Rightarrow> nat \<Rightarrow> 'u tg_event list" where
  "storeOutgoing tg b jid text message_id =
     (if onOutgoing tg then [OnOutgoingMessage jid (outgoing_of tg b jid text message_id)] else [])"

text \<open>
  The \<^verbatim>\<open>for\<close> loop of lines 366 to 382, from index \<open>i\<close> on; an exception of the API
  leaves it for the \<^verbatim>\<open>catch\<close> block.
\<close>

function sendChunks ::
  "'u telegram \<Rightarrow> bot_info \<Rightarrow> string \<Rightarrow> 'u list \<Rightarrow> nat \<Rightarrow> 'u tg_event list" where
  "sendChunks tg b jid text i =
     (if i < length text then
        (let chunk = take MAX_LENGTH (drop i text)
         in case api_sendMessage tg (i div MAX_LENGTH) (numericId jid) chunk of
              None \<Rightarrow> [ApiSendMessage (numericId jid) chunk None, LogErrorFailed jid]
            | Some message_id \<Rightarrow>
                ApiSendMessage (numericId jid) chunk (Some message_id)
                # (if i = 0 then storeOutgoing tg b jid text message_id else [])
                @ sendChunks tg b jid text (i + MAX_LENGTH))
      else [LogInfoSent jid (length text)])"
  by pat_completeness auto
termination
  by (relation "measure (\<lambda>(tg, b, jid, text, i). length text - i)")
    (auto simp: MAX_LENGTH_def)

declare sendChunks.simps [simp del]

text \<open>\<^verbatim>\<open>TelegramChannel.sendMessage\<close>.\<close>

definition sendMessage :: "'u telegram \<Rightarrow> string \<Rightarrow> 'u list \<Rightarrow> 'u tg_event list" where
  "sendMessage tg jid text =
     (case bot tg of
        None \<Rightarrow> [LogWarnNotInitialized]
      | Some b \<Rightarrow>
          if length text \<le> MAX_LENGTH then
            (case api_sendMessage tg 0 (numericId jid) text of
               None \<Rightarrow> [ApiSendMessage (numericId jid) text None, LogErrorFailed jid]
             | Some message_id \<Rightarrow>
                 ApiSendMessage (numericId jid) text (Some message_id)
                 # storeOutgoing tg b jid text message_id
                 @ [LogInfoSent jid (length text)])
          else sendChunks tg b jid text 0)"

text \<open>The texts of the API calls that succeeded, and the messages stored, in order.\<close>

definition sent_texts :: "'u tg_event list \<Rightarrow> 'u list list" where
  "sent_texts evs =
     concat (map (\<lambda>ev. case ev of ApiSendMessage cid chunk (Some m) \<Rightarrow> [chunk] | _ \<Rightarrow> []) evs)"

definition stored_messages :: "'u tg_event list \<Rightarrow> 'u outgoing list" where
  "stored_messages evs =
     concat (map (\<lambda>ev. case ev of OnOutgoingMessage jid m \<Rightarrow> [m] | _ \<Rightarrow> []) evs)"

text \<open>A connected bot whose API accepts every message.\<close>

definition example_telegram :: "char telegram" where
  "example_telegram =
     \<lparr>bot = Some \<lparr>bot_id = 777, bot_username = Some ''andy_ai_bot''\<rparr>, onOutgoing = True,
      api_sendMessage = (\<lambda>k cid chunk. Some (500 + k)), now = ''2026-02-25T10:00:00.000Z''\<rparr>"

section \<open>The \<^verbatim>\<open>.env\<close> file\<close>

text \<open>
  \<^verbatim>\<open>content.split('\n')\<close> and \<^verbatim>\<open>lines.join('\n')\<close>. The split of the empty string is
  one empty line.
\<close>

fun split_nl :: "string \<Rightarrow> string list" where
  "split_nl [] = [[]]"
| "split_nl (c # cs) =
     (if c = CHR 0x0A then [] # split_nl cs
      else (case split_nl cs of [] \<Rightarrow> [[c]] | l # ls \<Rightarrow> (c # l) # ls))"

fun join_nl :: "string list \<Rightarrow> string" where
  "join_nl [] = []"
| "join_nl [l] = l"
| "join_nl (l # ls) = l @ CHR 0x0A # join_nl ls"

text \<open>
  What \<^verbatim>\<open>readEnvFile\<close> (lines 26 to 32) and \<^verbatim>\<open>updateEnvFile\<close> (lines 64 to 74) both
  do with a line: a blank line, a comment and a line without \<^verbatim>\<open>=\<close> are no assignment;
  otherwise the key is the trimmed text before the first \<^verbatim>\<open>=\<close>. The second component
  is \<^verbatim>\<open>trimmed.slice(eqIdx + 1)\<close>.
\<close>

definition line_entry :: "string \<Rightarrow> (string \<times> string) option" where
  "line_entry line =
     (let trimmed = js_trim line
      in if trimmed = [] \<or> startsWith trimmed ''#'' then None
         else if CHR ''='' \<notin> set trimmed then None
         else (let eqIdx = length (takeWhile (\<lambda>c. c \<noteq> CHR ''='') trimmed)
               in Some (js_trim (take eqIdx trimmed), drop (eqIdx + 1) trimmed)))"

text \<open>
  Lines 33 to 38: a value that starts and ends with the same quote character loses both
  (\<^verbatim>\<open>value.slice(1, -1)\<close>); a single quote character on its own starts and ends with
  itself.
\<close>

definition quoted :: "string \<Rightarrow> bool" where
  "quoted v \<longleftrightarrow>
     (startsWith v [CHR 0x22] \<and> endsWith v [CHR 0x22]) \<or>
     (startsWith v [CHR 0x27] \<and> endsWith v [CHR 0x27])"

definition unquote :: "string \<Rightarrow> string" where
  "unquote v = (if quoted v then butlast (tl v) else v)"

text \<open>
  \<^verbatim>\<open>result[key] = value\<close> on an object created by \<^verbatim>\<open>{}\<close>: the assignment creates or
  replaces the property, except for the key \<^verbatim>\<open>__proto__\<close>, where it calls the setter of
  \<^verbatim>\<open>Object.prototype\<close>, which ignores a string.
\<close>

definition set_property :: "(string \<rightharpoonup> string) \<Rightarrow> string \<Rightarrow> string \<Rightarrow> (string \<rightharpoonup> string)" where
  "set_property obj key v = (if key = ''__proto__'' then obj else obj(key \<mapsto> v))"

text \<open>The body of the loop of \<^verbatim>\<open>readEnvFile\<close>, and \<^verbatim>\<open>readEnvFile\<close>; a missing file gives \<^verbatim>\<open>{}\<close>.\<close>

definition read_line :: "string list \<Rightarrow> string \<Rightarrow> (string \<rightharpoonup> string) \<Rightarrow> (string \<rightharpoonup> string)" where
  "read_line keys line result =
     (case line_entry line of
        None \<Rightarrow> result
      | Some (key, rest) \<Rightarrow>
          if key \<notin> set keys then result
          else (let v = unquote (js_trim rest)
                in if v \<noteq> [] then set_property result key v else result))"

definition readEnvFile :: "string list \<Rightarrow> string option \<Rightarrow> (string \<rightharpoonup> string)" where
  "readEnvFile keys file =
     (case file of
        None \<Rightarrow> Map.empty
      | Some contents \<Rightarrow> fold (read_line keys) (split_nl contents) Map.empty)"

text \<open>
  The body of the first loop of \<^verbatim>\<open>updateEnvFile\<close>. \<open>updates\<close> is
  \<^verbatim>\<open>Object.entries(updates)\<close>: the keys are distinct.
\<close>

definition update_line ::
  "(string \<times> string) list \<Rightarrow> string \<Rightarrow> string list \<times> string list \<Rightarrow> string list \<times> string list" where
  "update_line updates line acc =
     (case acc of (newLines, foundKeys) \<Rightarrow>
        (case line_entry line of
           None \<Rightarrow> (newLines @ [line], foundKeys)
         | Some (key, rest) \<Rightarrow>
             (case map_of updates key of
                Some newValue \<Rightarrow> (newLines @ [key @ ''='' @ newValue], key # foundKeys)
              | None \<Rightarrow> (newLines @ [line], foundKeys))))"

text \<open>
  \<^verbatim>\<open>updateEnvFile\<close>: the result is the text written to the file; a missing file is read
  as the empty text.
\<close>

definition updateEnvFile :: "(string \<times> string) list \<Rightarrow> string option \<Rightarrow> string" where
  "updateEnvFile updates file =
     (let contents = (case file of None \<Rightarrow> [] | Some c \<Rightarrow> c);
          (newLines, foundKeys) = fold (update_line updates) (split_nl contents) ([], []);
          added = concat (map (\<lambda>(key, v). if key \<in> set foundKeys then [] else [key @ ''='' @ v])
                    updates)
      in join_nl (newLines @ added) @ [CHR 0x0A])"

text \<open>The key of a line, when the line is an assignment; the text of a file.\<close>

definition line_key :: "string \<Rightarrow> string option" where
  "line_key line = map_option fst (line_entry line)"

definition file_contents :: "string option \<Rightarrow> string" where
  "file_contents file = (case file of None \<Rightarrow> [] | Some c \<Rightarrow> c)"

text \<open>A file of three lines: a comment and two assignments.\<close>

definition example_env_file :: string where
  "example_env_file =
     ''# models'' @ [CHR 0x0A] @ ''DEFAULT_MODEL=model-a'' @ [CHR 0x0A] @ ''TOKEN = abc''
     @ [CHR 0x0A]"

section \<open>Properties of \<^verbatim>\<open>processGroupMessages\<close>\<close>

lemma trackSession_cursors:
  "trackSession grp out s = (s', ev) \<Longrightarrow>
     lastAgentTimestamp s' = lastAgentTimestamp s \<and> lastTimestamp s' = lastTimestamp s \<and>
     db_last_timestamp s' = db_last_timestamp s \<and>
     db_last_agent_timestamp s' = db_last_agent_timestamp s \<and>
     filter is_SaveState ev = []"
  by (auto simp: trackSession_def is_SaveState_def split: option.splits if_splits)

lemma onOutput_flags:
  "onOutput d ch jid st r = (st', ev) \<Longrightarrow>
     hadError st' = (hadError st \<or> out_status r = Error) \<and>
     outputSentToUser st' = (outputSentToUser st \<or> sends_text r) \<and>
     filter is_SaveState ev = []"
  by (auto simp: onOutput_def sends_text_def resetIdleTimer_def Let_def is_SaveState_def
      split: if_splits)

lemma process_stream_summary:
  "process_stream d ch grp jid items s st = (s', st', ev) \<Longrightarrow>
     lastAgentTimestamp s' = lastAgentTimestamp s \<and> lastTimestamp s' = lastTimestamp s \<and>
     db_last_timestamp s' = db_last_timestamp s \<and>
     db_last_agent_timestamp s' = db_last_agent_timestamp s \<and>
     hadError st' = (hadError st \<or> (\<exists>r \<in> set (outputs_of items). out_status r = Error)) \<and>
     outputSentToUser st' = (outputSentToUser st \<or> (\<exists>r \<in> set (outputs_of items). sends_text r)) \<and>
     filter is_SaveState ev = []"
proof (induction items arbitrary: s st s' st' ev)
  case Nil
  then show ?case by (simp add: outputs_of_def)
next
  case (Cons i items)
  show ?case
  proof (cases i)
    case (Output out)
    obtain s1 ev1 where ts: "trackSession grp out s = (s1, ev1 :: 'a event list)"
      by (cases "trackSession grp out s :: router_state \<times> 'a event list") auto
    obtain st1 ev2 where oo: "onOutput d ch jid st out = (st1, ev2 :: 'a event list)"
      by (cases "onOutput d ch jid st out :: cb_state \<times> 'a event list") auto
    obtain s2 st2 ev3 where ps: "process_stream d ch grp jid items s1 st1 = (s2, st2, ev3 :: 'a event list)"
      by (cases "process_stream d ch grp jid items s1 st1 :: router_state \<times> cb_state \<times> 'a event list") auto
    from Cons.prems Output ts oo ps have eq: "s' = s2" "st' = st2" "ev = ev1 @ ev2 @ ev3"
      by simp_all
    note a = trackSession_cursors[OF ts] and b = onOutput_flags[OF oo] and c = Cons.IH[OF ps]
    show ?thesis using a b c eq Output by (auto simp: outputs_of_def)
  next
    case IdleElapsed
    obtain t ev1 where ie: "idleExpired jid (idleTimer st) = (t, ev1 :: 'a event list)"
      by (cases "idleExpired jid (idleTimer st) :: idle_timer \<times> 'a event list") auto
    obtain s2 st2 ev3 where ps: "process_stream d ch grp jid items s (st\<lparr>idleTimer := t\<rparr>) = (s2, st2, ev3 :: 'a event list)"
      by (cases "process_stream d ch grp jid items s (st\<lparr>idleTimer := t\<rparr>) :: router_state \<times> cb_state \<times> 'a event list") auto
    from Cons.prems IdleElapsed ie ps have eq: "s' = s2" "st' = st2" "ev = ev1 @ ev3"
      by simp_all
    have "filter is_SaveState ev1 = []"
      using ie by (auto simp: idleExpired_def is_SaveState_def split: if_splits)
    then show ?thesis using Cons.IH[OF ps] eq IdleElapsed by (auto simp: outputs_of_def)
  qed
qed

lemma runAgent_summary:
  assumes "runAgent e ch grp prompt jid run s st = (out, s', st', ev)"
  shows "lastAgentTimestamp s' = lastAgentTimestamp s \<and> lastTimestamp s' = lastTimestamp s \<and>
     db_last_timestamp s' = db_last_timestamp s \<and>
     db_last_agent_timestamp s' = db_last_agent_timestamp s \<and>
     ((out = ExitError \<or> hadError st') = (hadError st \<or> run_errors run)) \<and>
     outputSentToUser st' = (outputSentToUser st \<or> run_sends_output run) \<and>
     filter is_SaveState ev = [] \<and>
     (\<exists>rest. ev = [WriteTasksSnapshot (folder grp) (folder grp = MAIN_GROUP_FOLDER e),
                    WriteGroupsSnapshot (folder grp) (folder grp = MAIN_GROUP_FOLDER e),
                    RunContainerAgent jid prompt (sessions s (folder grp))] @ rest)"
proof -
  obtain s1 st1 ev1 where ps:
    "process_stream (IDLE_TIMEOUT e) ch grp jid (stream run) s st = (s1, st1, ev1 :: 'a event list)"
    by (cases "process_stream (IDLE_TIMEOUT e) ch grp jid (stream run) s st
          :: router_state \<times> cb_state \<times> 'a event list") auto
  note sum = process_stream_summary[OF ps]
  show ?thesis
  proof (cases "final run")
    case None
    with assms ps have "out = ExitError" "s' = s1" "st' = st1"
      "ev = [WriteTasksSnapshot (folder grp) (folder grp = MAIN_GROUP_FOLDER e),
             WriteGroupsSnapshot (folder grp) (folder grp = MAIN_GROUP_FOLDER e),
             RunContainerAgent jid prompt (sessions s (folder grp))] @ ev1"
      by (simp_all add: runAgent_def Let_def)
    with sum None show ?thesis
      by (simp add: run_errors_def run_sends_output_def is_SaveState_def)
  next
    case (Some fin)
    obtain s2 ev2 where ts: "trackSession grp fin s1 = (s2, ev2 :: 'a event list)"
      by (cases "trackSession grp fin s1 :: router_state \<times> 'a event list") auto
    with assms ps Some have "out = (if out_status fin = Error then ExitError else ExitSuccess)"
      "s' = s2" "st' = st1"
      "ev = [WriteTasksSnapshot (folder grp) (folder grp = MAIN_GROUP_FOLDER e),
             WriteGroupsSnapshot (folder grp) (folder grp = MAIN_GROUP_FOLDER e),
             RunContainerAgent jid prompt (sessions s (folder grp))] @ ev1 @ ev2"
      by (simp_all add: runAgent_def Let_def)
    with sum Some trackSession_cursors[OF ts] show ?thesis
      by (simp add: run_errors_def run_sends_output_def is_SaveState_def)
  qed
qed

lemma processGroupMessages_run:
  assumes reg: "map_of (registeredGroups e) chatJid = Some grp"
    and ch: "findChannel (channels e) chatJid = Some ch"
    and pend: "getMessagesSince e chatJid (cursor (lastAgentTimestamp s) chatJid) (ASSISTANT_NAME e) = pending"
    and ne: "pending \<noteq> []"
    and adv: "s1 = s\<lparr>lastAgentTimestamp := (lastAgentTimestamp s)(chatJid \<mapsto> timestamp (last pending)),
                    db_last_timestamp := lastTimestamp s,
                    db_last_agent_timestamp := (lastAgentTimestamp s)(chatJid \<mapsto> timestamp (last pending))\<rparr>"
    and ra: "runAgent e ch grp (formatMessages e pending) chatJid run s1
               \<lparr>idleTimer = NoTimer, hadError = False, outputSentToUser = False\<rparr> = (out, s2, st, ev3)"
    and evs: "evs = SaveState (lastTimestamp s) ((lastAgentTimestamp s)(chatJid \<mapsto> timestamp (last pending)))
                # setTyping ch chatJid True @ ev3 @ setTyping ch chatJid False
                @ (if idleTimer st \<noteq> NoTimer then [ClearTimeout chatJid] else [])"
  shows "processGroupMessages e run s chatJid =
     (if out = ExitError \<or> hadError st then
        (if outputSentToUser st then (True, s2, evs)
         else (False,
               s2\<lparr>lastAgentTimestamp := (lastAgentTimestamp s2)(chatJid \<mapsto> cursor (lastAgentTimestamp s) chatJid),
                  db_last_timestamp := lastTimestamp s2,
                  db_last_agent_timestamp := (lastAgentTimestamp s2)(chatJid \<mapsto> cursor (lastAgentTimestamp s) chatJid)\<rparr>,
               evs @ [SaveState (lastTimestamp s2)
                        ((lastAgentTimestamp s2)(chatJid \<mapsto> cursor (lastAgentTimestamp s) chatJid))]))
      else (True, s2, evs))"
  using reg ch pend ne ra unfolding adv evs
  by (simp add: processGroupMessages_def saveState_def Let_def)

lemma example_pending:
  "getMessagesSince (example_env example_rows a) ''tg:100'' ''0'' n = example_rows"
  by (simp add: example_env_def store_getMessagesSince_def example_rows_def example_message_def
      less_char_def)

text \<open>
  Claim C1. For every group JID: when the group is registered, a channel owns the JID and
  there are pending messages, and the run of the agent ends with terminal status error
  without any text having been sent to the channel, \<^verbatim>\<open>processGroupMessages\<close> returns
  false, \<^verbatim>\<open>lastAgentTimestamp[jid]\<close> is again \<^verbatim>\<open>previousCursor\<close> (the value read
  before the run, \<^verbatim>\<open>''\<close> for a JID without a cursor), no other cursor has changed, and
  the last effect is \<^verbatim>\<open>saveState\<close> writing the restored cursors to the database.
\<close>

theorem processGroupMessages_error_without_output:
  assumes "map_of (registeredGroups e) chatJid = Some grp"
    and "findChannel (channels e) chatJid = Some ch"
    and "getMessagesSince e chatJid (cursor (lastAgentTimestamp s) chatJid) (ASSISTANT_NAME e) \<noteq> []"
    and "run_errors run" and "\<not> run_sends_output run"
  shows "(case processGroupMessages e run s chatJid of
           (ok, s', trace) \<Rightarrow>
             \<not> ok \<and>
             lastAgentTimestamp s' =
               (lastAgentTimestamp s)(chatJid \<mapsto> cursor (lastAgentTimestamp s) chatJid) \<and>
             cursor (lastAgentTimestamp s') chatJid = cursor (lastAgentTimestamp s) chatJid \<and>
             lastTimestamp s' = lastTimestamp s \<and>
             db_last_agent_timestamp s' = lastAgentTimestamp s' \<and>
             db_last_timestamp s' = lastTimestamp s' \<and>
             last trace = SaveState (lastTimestamp s') (lastAgentTimestamp s'))"
proof -
  define pending where
    "pending = getMessagesSince e chatJid (cursor (lastAgentTimestamp s) chatJid) (ASSISTANT_NAME e)"
  define s1 where
    "s1 = s\<lparr>lastAgentTimestamp := (lastAgentTimestamp s)(chatJid \<mapsto> timestamp (last pending)),
            db_last_timestamp := lastTimestamp s,
            db_last_agent_timestamp := (lastAgentTimestamp s)(chatJid \<mapsto> timestamp (last pending))\<rparr>"
  obtain out s2 st ev3 where ra:
    "runAgent e ch grp (formatMessages e pending) chatJid run s1
       \<lparr>idleTimer = NoTimer, hadError = False, outputSentToUser = False\<rparr> = (out, s2, st, ev3 :: 'a event list)"
    by (cases "runAgent e ch grp (formatMessages e pending) chatJid run s1
       \<lparr>idleTimer = NoTimer, hadError = False, outputSentToUser = False\<rparr>
        :: agent_exit \<times> router_state \<times> cb_state \<times> 'a event list") auto
  note sum = runAgent_summary[OF ra]
  from sum assms(4,5) have fl: "out = ExitError \<or> hadError st" "\<not> outputSentToUser st"
    by simp_all
  have ne: "pending \<noteq> []" using assms(3) by (simp add: pending_def)
  note unf = processGroupMessages_run[OF assms(1,2) pending_def[symmetric] ne s1_def ra refl]
  show ?thesis
    unfolding unf using fl sum by (simp add: s1_def cursor_def)
qed

text \<open>
  The spec's scenario "error with no output": two messages at timestamps 1 and 2, cursor
  0, the agent fails without streaming a record; the cursor is 0 again afterwards.
\<close>

theorem processGroupMessages_error_without_output_witness:
  "(case processGroupMessages (example_env example_rows False)
           \<lparr>stream = [], final = Some (record_of Error RNull)\<rparr>
           (example_state ''2'' ''0'') ''tg:100'' of
      (ok, s', trace) \<Rightarrow>
        \<not> ok \<and>
        lastAgentTimestamp s' = [''tg:100'' \<mapsto> ''0''] \<and>
        db_last_agent_timestamp s' = [''tg:100'' \<mapsto> ''0''] \<and>
        last trace = SaveState ''2'' [''tg:100'' \<mapsto> ''0''])"
proof -
  let ?e = "example_env example_rows False"
  let ?s = "example_state ''2'' ''0''"
  let ?run = "\<lparr>stream = [], final = Some (record_of Error RNull)\<rparr>"
  have c: "cursor (lastAgentTimestamp ?s) ''tg:100'' = ''0''"
    by (simp add: example_state_def cursor_def)
  have h1: "map_of (registeredGroups ?e) ''tg:100'' = Some example_group"
    by (simp add: example_env_def)
  have h2: "findChannel (channels ?e) ''tg:100'' = Some telegram_channel"
    by (simp add: example_env_def findChannel_def telegram_channel_def startsWith_def)
  have h3: "getMessagesSince ?e ''tg:100'' (cursor (lastAgentTimestamp ?s) ''tg:100'')
              (ASSISTANT_NAME ?e) \<noteq> []"
    unfolding c example_pending by (simp add: example_rows_def)
  have h4: "run_errors ?run" by (simp add: run_errors_def record_of_def)
  have h5: "\<not> run_sends_output ?run" by (simp add: run_sends_output_def outputs_of_def)
  from processGroupMessages_error_without_output[OF h1 h2 h3 h4 h5]
  show ?thesis
    by (auto simp: example_state_def cursor_def split: prod.splits)
qed

text \<open>
  Claim C2. For every group JID: when the run of the agent ends with terminal status error
  but some record made the callback send non-empty text to the channel
  (\<^verbatim>\<open>outputSentToUser\<close>), \<^verbatim>\<open>processGroupMessages\<close> returns true and
  \<^verbatim>\<open>lastAgentTimestamp[jid]\<close> stays at the timestamp of the last pending message: the
  only write of the cursors is the advance made before the run, there is no rollback.
\<close>

theorem processGroupMessages_error_after_output:
  assumes "map_of (registeredGroups e) chatJid = Some grp"
    and "findChannel (channels e) chatJid = Some ch"
    and "getMessagesSince e chatJid (cursor (lastAgentTimestamp s) chatJid) (ASSISTANT_NAME e) = pending"
    and "pending \<noteq> []"
    and "run_errors run" and "run_sends_output run"
  shows "(case processGroupMessages e run s chatJid of
           (ok, s', trace) \<Rightarrow>
             ok \<and>
             lastAgentTimestamp s' =
               (lastAgentTimestamp s)(chatJid \<mapsto> timestamp (last pending)) \<and>
             db_last_agent_timestamp s' = lastAgentTimestamp s' \<and>
             filter is_SaveState trace =
               [SaveState (lastTimestamp s)
                  ((lastAgentTimestamp s)(chatJid \<mapsto> timestamp (last pending)))])"
proof -
  define s1 where
    "s1 = s\<lparr>lastAgentTimestamp := (lastAgentTimestamp s)(chatJid \<mapsto> timestamp (last pending)),
            db_last_timestamp := lastTimestamp s,
            db_last_agent_timestamp := (lastAgentTimestamp s)(chatJid \<mapsto> timestamp (last pending))\<rparr>"
  obtain out s2 st ev3 where ra:
    "runAgent e ch grp (formatMessages e pending) chatJid run s1
       \<lparr>idleTimer = NoTimer, hadError = False, outputSentToUser = False\<rparr> = (out, s2, st, ev3 :: 'a event list)"
    by (cases "runAgent e ch grp (formatMessages e pending) chatJid run s1
       \<lparr>idleTimer = NoTimer, hadError = False, outputSentToUser = False\<rparr>
        :: agent_exit \<times> router_state \<times> cb_state \<times> 'a event list") auto
  note sum = runAgent_summary[OF ra]
  from sum assms(5,6) have fl: "out = ExitError \<or> hadError st" "outputSentToUser st"
    by simp_all
  note unf = processGroupMessages_run[OF assms(1,2,3,4) s1_def ra refl]
  show ?thesis
    unfolding unf using fl sum by (simp add: s1_def setTyping_def is_SaveState_def)
qed

text \<open>
  The spec's scenario "error after output": the agent streams \<^verbatim>\<open>partial\<close> and then
  fails; the cursor stays at 2.
\<close>

theorem processGroupMessages_error_after_output_witness:
  "(case processGroupMessages (example_env example_rows False)
           \<lparr>stream = [Output (record_of Success (RString ''partial''))], final = Some (record_of Error RNull)\<rparr>
           (example_state ''2'' ''0'') ''tg:100'' of
      (ok, s', trace) \<Rightarrow>
        ok \<and>
        lastAgentTimestamp s' = [''tg:100'' \<mapsto> ''2''] \<and>
        db_last_agent_timestamp s' = [''tg:100'' \<mapsto> ''2''] \<and>
        filter is_SaveState trace = [SaveState ''2'' [''tg:100'' \<mapsto> ''2'']])"
proof -
  let ?e = "example_env example_rows False"
  let ?s = "example_state ''2'' ''0''"
  let ?run = "\<lparr>stream = [Output (record_of Success (RString ''partial''))], final = Some (record_of Error RNull)\<rparr>"
  have c: "cursor (lastAgentTimestamp ?s) ''tg:100'' = ''0''"
    by (simp add: example_state_def cursor_def)
  have h1: "map_of (registeredGroups ?e) ''tg:100'' = Some example_group"
    by (simp add: example_env_def)
  have h2: "findChannel (channels ?e) ''tg:100'' = Some telegram_channel"
    by (simp add: example_env_def findChannel_def telegram_channel_def startsWith_def)
  have h3: "getMessagesSince ?e ''tg:100'' (cursor (lastAgentTimestamp ?s) ''tg:100'')
              (ASSISTANT_NAME ?e) = example_rows"
    unfolding c example_pending by simp
  have h4: "example_rows \<noteq> []" by (simp add: example_rows_def)
  have h5: "run_errors ?run" by (simp add: run_errors_def record_of_def)
  have h6: "run_sends_output ?run"
    by (simp add: run_sends_output_def outputs_of_def sends_text_def record_of_def js_trim_def is_space_def)
  from processGroupMessages_error_after_output[OF h1 h2 h3 h4 h5 h6]
  show ?thesis
    by (auto simp: example_state_def example_rows_def example_message_def split: prod.splits)
qed

text \<open>
  Claim C3. When there are pending messages, the first effect of
  \<^verbatim>\<open>processGroupMessages\<close> is \<^verbatim>\<open>saveState\<close> writing the cursor advanced to the
  timestamp of the last pending message; the typing indicator, the snapshots and the
  start of the container agent with the formatted pending messages follow it, and every
  send to the channel comes later still, from the records of the run.
\<close>

theorem processGroupMessages_advances_before_agent:
  assumes "map_of (registeredGroups e) chatJid = Some grp"
    and "findChannel (channels e) chatJid = Some ch"
    and "getMessagesSince e chatJid (cursor (lastAgentTimestamp s) chatJid) (ASSISTANT_NAME e) = pending"
    and "pending \<noteq> []"
  shows "\<exists>rest. snd (snd (processGroupMessages e run s chatJid)) =
           SaveState (lastTimestamp s)
             ((lastAgentTimestamp s)(chatJid \<mapsto> timestamp (last pending)))
           # setTyping ch chatJid True
           @ [WriteTasksSnapshot (folder grp) (folder grp = MAIN_GROUP_FOLDER e),
              WriteGroupsSnapshot (folder grp) (folder grp = MAIN_GROUP_FOLDER e),
              RunContainerAgent chatJid (formatMessages e pending) (sessions s (folder grp))]
           @ rest"
proof -
  define s1 where
    "s1 = s\<lparr>lastAgentTimestamp := (lastAgentTimestamp s)(chatJid \<mapsto> timestamp (last pending)),
            db_last_timestamp := lastTimestamp s,
            db_last_agent_timestamp := (lastAgentTimestamp s)(chatJid \<mapsto> timestamp (last pending))\<rparr>"
  obtain out s2 st ev3 where ra:
    "runAgent e ch grp (formatMessages e pending) chatJid run s1
       \<lparr>idleTimer = NoTimer, hadError = False, outputSentToUser = False\<rparr> = (out, s2, st, ev3 :: 'a event list)"
    by (cases "runAgent e ch grp (formatMessages e pending) chatJid run s1
       \<lparr>idleTimer = NoTimer, hadError = False, outputSentToUser = False\<rparr>
        :: agent_exit \<times> router_state \<times> cb_state \<times> 'a event list") auto
  from runAgent_summary[OF ra] obtain rest where ev3:
    "ev3 = [WriteTasksSnapshot (folder grp) (folder grp = MAIN_GROUP_FOLDER e),
            WriteGroupsSnapshot (folder grp) (folder grp = MAIN_GROUP_FOLDER e),
            RunContainerAgent chatJid (formatMessages e pending) (sessions s1 (folder grp))] @ rest"
    by blast
  have ses: "sessions s1 = sessions s" by (simp add: s1_def)
  note unf = processGroupMessages_run[OF assms(1,2,3,4) s1_def ra refl]
  show ?thesis
    unfolding unf ev3 ses by simp
qed

text \<open>
  The spec's scenario "happy path": the cursor 2 is written first, then the agent is
  started with both messages.
\<close>

theorem processGroupMessages_advances_before_agent_witness:
  "\<exists>rest. snd (snd (processGroupMessages (example_env example_rows False)
             \<lparr>stream = [Output (record_of Success (RString ''hello''))],
              final = Some (record_of Success RNull)\<rparr>
             (example_state ''2'' ''0'') ''tg:100'')) =
     [SaveState ''2'' [''tg:100'' \<mapsto> ''2''],
      SetTyping ''telegram'' ''tg:100'' True,
      WriteTasksSnapshot ''g'' False,
      WriteGroupsSnapshot ''g'' False,
      RunContainerAgent ''tg:100'' example_rows None] @ rest"
proof -
  let ?e = "example_env example_rows False"
  let ?s = "example_state ''2'' ''0''"
  have c: "cursor (lastAgentTimestamp ?s) ''tg:100'' = ''0''"
    by (simp add: example_state_def cursor_def)
  have h1: "map_of (registeredGroups ?e) ''tg:100'' = Some example_group"
    by (simp add: example_env_def)
  have h2: "findChannel (channels ?e) ''tg:100'' = Some telegram_channel"
    by (simp add: example_env_def findChannel_def telegram_channel_def startsWith_def)
  have h3: "getMessagesSince ?e ''tg:100'' (cursor (lastAgentTimestamp ?s) ''tg:100'')
              (ASSISTANT_NAME ?e) = example_rows"
    unfolding c example_pending by simp
  have h4: "example_rows \<noteq> []" by (simp add: example_rows_def)
  have l: "timestamp (last example_rows) = ''2''"
    by (simp add: example_rows_def example_message_def)
  from processGroupMessages_advances_before_agent[OF h1 h2 h3 h4]
  show ?thesis
    unfolding l
    by (simp add: example_state_def example_env_def example_group_def telegram_channel_def
        setTyping_def)
qed

text \<open>
  Claim C6. When \<^verbatim>\<open>getMessagesSince(J, lastAgentTimestamp[J])\<close> is empty,
  \<^verbatim>\<open>processGroupMessages(J)\<close> returns true, leaves the globals and the database rows
  as they were, and has no effect: no agent is started and nothing is persisted.
\<close>

theorem processGroupMessages_nothing_pending:
  assumes "getMessagesSince e chatJid (cursor (lastAgentTimestamp s) chatJid) (ASSISTANT_NAME e) = []"
  shows "processGroupMessages e run s chatJid = (True, s, [])"
  using assms
  by (simp add: processGroupMessages_def split: option.splits)

text \<open>Both messages of the store are at or below the cursor 2: nothing is pending.\<close>

theorem processGroupMessages_nothing_pending_witness:
  "processGroupMessages (example_env example_rows False)
     \<lparr>stream = [Output (record_of Success (RString ''hello''))],
      final = Some (record_of Success RNull)\<rparr>
     (example_state ''2'' ''2'') ''tg:100'' = (True, example_state ''2'' ''2'', [])"
proof -
  let ?e = "example_env example_rows False"
  let ?s = "example_state ''2'' ''2''"
  have c: "cursor (lastAgentTimestamp ?s) ''tg:100'' = ''2''"
    by (simp add: example_state_def cursor_def)
  have h: "getMessagesSince ?e ''tg:100'' (cursor (lastAgentTimestamp ?s) ''tg:100'')
             (ASSISTANT_NAME ?e) = []"
    unfolding c
    by (simp add: example_env_def store_getMessagesSince_def example_rows_def
        example_message_def less_char_def)
  from processGroupMessages_nothing_pending[OF h] show ?thesis .
qed

section \<open>Properties of the idle timer\<close>










section \<open>Properties of the message loop\<close>

lemma routeGroup_seen:
  "routeGroup e s chatJid groupMessages = (oc, s', ev) \<Longrightarrow>
     lastTimestamp s' = lastTimestamp s \<and>
     (db_last_timestamp s = lastTimestamp s \<longrightarrow> db_last_timestamp s' = lastTimestamp s')"
  by (auto simp: routeGroup_def saveState_def Let_def split: option.splits if_splits)

lemma routeGroups_seen:
  "routeGroups e groups s = (oc, s', ev) \<Longrightarrow>
     lastTimestamp s' = lastTimestamp s \<and>
     (db_last_timestamp s = lastTimestamp s \<longrightarrow> db_last_timestamp s' = lastTimestamp s')"
proof (induction groups arbitrary: s oc s' ev)
  case Nil
  then show ?case by simp
next
  case (Cons g groups)
  obtain chatJid groupMessages where g: "g = (chatJid, groupMessages)" by (cases g)
  obtain oc1 s1 ev1 where r1: "routeGroup e s chatJid groupMessages = (oc1, s1, ev1)"
    by (cases "routeGroup e s chatJid groupMessages") auto
  note a = routeGroup_seen[OF r1]
  show ?case
  proof (cases oc1)
    case Threw
    with Cons.prems g r1 have "s' = s1" by simp
    with a show ?thesis by simp
  next
    case Completed
    obtain oc2 s2 ev2 where r2: "routeGroups e groups s1 = (oc2, s2, ev2)"
      by (cases "routeGroups e groups s1") auto
    with Cons.prems g r1 Completed have "s' = s2" by simp
    with a Cons.IH[OF r2] show ?thesis by simp
  qed
qed

lemma fold_max_ge: "since \<le> fold (\<lambda>m t. max (timestamp m) t) ms (since :: string)"
proof (induction ms arbitrary: since)
  case Nil
  then show ?case by simp
next
  case (Cons m ms)
  have "since \<le> max (timestamp m) since" by simp
  also have "\<dots> \<le> fold (\<lambda>m t. max (timestamp m) t) ms (max (timestamp m) since)"
    by (rule Cons.IH)
  finally show ?case by simp
qed

lemma messageLoopIteration_seen:
  assumes "getNewMessages e = store_getNewMessages rows"
    and "messageLoopIteration e s = (oc, s', ev)"
  shows "lastTimestamp s \<le> lastTimestamp s'"
proof -
  obtain messages newTimestamp where gn:
    "getNewMessages e (map fst (registeredGroups e)) (lastTimestamp s) (ASSISTANT_NAME e)
       = (messages, newTimestamp)"
    by (cases "getNewMessages e (map fst (registeredGroups e)) (lastTimestamp s) (ASSISTANT_NAME e)")
  have ge: "lastTimestamp s \<le> newTimestamp"
    using gn unfolding assms(1) by (auto simp: store_getNewMessages_def Let_def fold_max_ge)
  show ?thesis
  proof (cases "messages = []")
    case True
    with assms(2) gn show ?thesis by (simp add: messageLoopIteration_def)
  next
    case False
    define s1 where "s1 = s\<lparr>lastTimestamp := newTimestamp, db_last_timestamp := newTimestamp,
                             db_last_agent_timestamp := lastAgentTimestamp s\<rparr>"
    obtain oc2 s2 ev2 where rg: "routeGroups e (messagesByGroup messages) s1 = (oc2, s2, ev2)"
      by (cases "routeGroups e (messagesByGroup messages) s1") auto
    from assms(2) gn False rg have "s' = s2"
      by (simp add: messageLoopIteration_def saveState_def s1_def)
    with routeGroups_seen[OF rg] ge show ?thesis by (simp add: s1_def)
  qed
qed

lemma processGroupMessages_seen:
  assumes "processGroupMessages e run s chatJid = (ok, s', ev)"
  shows "lastTimestamp s' = lastTimestamp s"
proof (cases "map_of (registeredGroups e) chatJid")
  case None
  with assms show ?thesis by (simp add: processGroupMessages_def)
next
  case (Some grp)
  show ?thesis
  proof (cases "findChannel (channels e) chatJid")
    case None
    with assms Some show ?thesis by (simp add: processGroupMessages_def)
  next
    case (Some ch)
    define pending where
      "pending = getMessagesSince e chatJid (cursor (lastAgentTimestamp s) chatJid) (ASSISTANT_NAME e)"
    show ?thesis
    proof (cases "pending = []")
      case True
      with assms show ?thesis
        by (simp add: processGroupMessages_def pending_def split: option.splits)
    next
      case False
      define s1 where
        "s1 = s\<lparr>lastAgentTimestamp := (lastAgentTimestamp s)(chatJid \<mapsto> timestamp (last pending)),
                db_last_timestamp := lastTimestamp s,
                db_last_agent_timestamp := (lastAgentTimestamp s)(chatJid \<mapsto> timestamp (last pending))\<rparr>"
      obtain out s2 st ev3 where ra:
        "runAgent e ch grp (formatMessages e pending) chatJid run s1
           \<lparr>idleTimer = NoTimer, hadError = False, outputSentToUser = False\<rparr> = (out, s2, st, ev3 :: 'a event list)"
        by (cases "runAgent e ch grp (formatMessages e pending) chatJid run s1
           \<lparr>idleTimer = NoTimer, hadError = False, outputSentToUser = False\<rparr>
            :: agent_exit \<times> router_state \<times> cb_state \<times> 'a event list") auto
      note sum = runAgent_summary[OF ra]
      note unf = processGroupMessages_run[OF \<open>map_of (registeredGroups e) chatJid = Some grp\<close> Some
          pending_def[symmetric] False s1_def ra refl]
      from assms show ?thesis
        unfolding unf using sum by (auto simp: s1_def split: if_splits)
    qed
  qed
qed

lemma runRouter_seen:
  "\<forall>t \<in> set turns. store_backed t \<Longrightarrow> runRouter turns s = (s', ev) \<Longrightarrow>
     lastTimestamp s \<le> lastTimestamp s'"
proof (induction turns arbitrary: s s' ev)
  case Nil
  then show ?case by simp
next
  case (Cons t turns)
  show ?case
  proof (cases t)
    case (Poll e)
    obtain oc s1 ev1 where it: "messageLoopIteration e s = (oc, s1, ev1)"
      by (cases "messageLoopIteration e s") auto
    obtain s2 ev2 where rr: "runRouter turns s1 = (s2, ev2)"
      by (cases "runRouter turns s1") auto
    from Cons.prems(1) Poll obtain rows where sb: "getNewMessages e = store_getNewMessages rows"
      by (auto simp: store_backed_def)
    from Cons.prems(2) Poll it rr have "s' = s2" by simp
    moreover have "lastTimestamp s \<le> lastTimestamp s1"
      by (rule messageLoopIteration_seen[OF sb it])
    moreover have "lastTimestamp s1 \<le> lastTimestamp s2"
      using Cons.IH[OF _ rr] Cons.prems(1) by simp
    ultimately show ?thesis by simp
  next
    case (Work e run chatJid)
    obtain ok s1 ev1 where it: "processGroupMessages e run s chatJid = (ok, s1, ev1)"
      by (cases "processGroupMessages e run s chatJid") auto
    obtain s2 ev2 where rr: "runRouter turns s1 = (s2, ev2)"
      by (cases "runRouter turns s1") auto
    from Cons.prems(2) Work it rr have "s' = s2" by simp
    moreover have "lastTimestamp s1 = lastTimestamp s"
      by (rule processGroupMessages_seen[OF it])
    moreover have "lastTimestamp s1 \<le> lastTimestamp s2"
      using Cons.IH[OF _ rr] Cons.prems(1) by simp
    ultimately show ?thesis by simp
  qed
qed

lemma group_insert_nonempty:
  "\<forall>(jid, ms) \<in> set groups. ms \<noteq> [] \<Longrightarrow> \<forall>(jid, ms) \<in> set (group_insert m groups). ms \<noteq> []"
  by (induction groups) (auto split: if_splits)

lemma fold_group_insert_nonempty:
  "\<forall>(jid, ms) \<in> set groups. ms \<noteq> [] \<Longrightarrow>
     \<forall>(jid, ms) \<in> set (fold group_insert messages groups). ms \<noteq> []"
proof (induction messages arbitrary: groups)
  case Nil
  then show ?case by simp
next
  case (Cons m messages)
  have "\<forall>(jid, ms) \<in> set (group_insert m groups). ms \<noteq> []"
    by (rule group_insert_nonempty[OF Cons.prems])
  from Cons.IH[OF this] show ?case by simp
qed

lemma messagesByGroup_nonempty: "\<forall>(jid, ms) \<in> set (messagesByGroup messages). ms \<noteq> []"
  unfolding messagesByGroup_def by (rule fold_group_insert_nonempty) simp

lemma routeGroup_completes:
  "groupMessages \<noteq> [] \<Longrightarrow> fst (routeGroup e s chatJid groupMessages) = Completed"
  by (auto simp: routeGroup_def messagesToSend_def saveState_def Let_def split: option.splits)

lemma routeGroups_completes:
  "\<forall>(jid, ms) \<in> set groups. ms \<noteq> [] \<Longrightarrow> fst (routeGroups e groups s) = Completed"
proof (induction groups arbitrary: s)
  case Nil
  then show ?case by simp
next
  case (Cons g groups)
  obtain chatJid groupMessages where g: "g = (chatJid, groupMessages)" by (cases g)
  obtain oc1 s1 ev1 where r1: "routeGroup e s chatJid groupMessages = (oc1, s1, ev1)"
    by (cases "routeGroup e s chatJid groupMessages") auto
  from Cons.prems g have "groupMessages \<noteq> []" by simp
  from routeGroup_completes[OF this, of e s chatJid] r1 have oc1: "oc1 = Completed" by simp
  obtain oc2 s2 ev2 where r2: "routeGroups e groups s1 = (oc2, s2, ev2)"
    by (cases "routeGroups e groups s1") auto
  from Cons.prems have "fst (routeGroups e groups s1) = Completed"
    by (intro Cons.IH) simp
  with r2 have "oc2 = Completed" by simp
  with g r1 r2 oc1 show ?case by simp
qed

lemma messageLoopIteration_completes: "fst (messageLoopIteration e s) = Completed"
proof -
  obtain messages newTimestamp where gn:
    "getNewMessages e (map fst (registeredGroups e)) (lastTimestamp s) (ASSISTANT_NAME e)
       = (messages, newTimestamp)"
    by (cases "getNewMessages e (map fst (registeredGroups e)) (lastTimestamp s) (ASSISTANT_NAME e)")
  define s1 where "s1 = s\<lparr>lastTimestamp := newTimestamp, db_last_timestamp := newTimestamp,
                           db_last_agent_timestamp := lastAgentTimestamp s\<rparr>"
  obtain oc2 s2 ev2 where rg: "routeGroups e (messagesByGroup messages) s1 = (oc2, s2, ev2)"
    by (cases "routeGroups e (messagesByGroup messages) s1") auto
  from routeGroups_completes[OF messagesByGroup_nonempty, of e messages s1] rg
  have "oc2 = Completed" by simp
  with gn rg show ?thesis
    by (simp add: messageLoopIteration_def saveState_def s1_def)
qed


lemma example_message_fields:
  "timestamp (example_message t c) = t" "chat_jid (example_message t c) = ''tg:100''"
  "is_bot_message (example_message t c) = False"
  by (simp_all add: example_message_def)

lemma example_env_fields:
  "ASSISTANT_NAME (example_env rows a) = ''Andy''"
  "MAIN_GROUP_FOLDER (example_env rows a) = ''main''"
  "IDLE_TIMEOUT (example_env rows a) = 1800000"
  "registeredGroups (example_env rows a) = [(''tg:100'', example_group)]"
  "channels (example_env rows a) = [telegram_channel]"
  "getMessagesSince (example_env rows a) = store_getMessagesSince rows"
  "getNewMessages (example_env rows a) = store_getNewMessages rows"
  "formatMessages (example_env rows a) = (\<lambda>ms. ms)"
  "queue_sendMessage (example_env rows a) = (\<lambda>jid prompt. a)"
  by (simp_all add: example_env_def)

lemma example_state_fields:
  "lastTimestamp (example_state seen agent_seen) = seen"
  "lastAgentTimestamp (example_state seen agent_seen) = [''tg:100'' \<mapsto> agent_seen]"
  "sessions (example_state seen agent_seen) = Map.empty"
  "db_last_timestamp (example_state seen agent_seen) = seen"
  "db_last_agent_timestamp (example_state seen agent_seen) = [''tg:100'' \<mapsto> agent_seen]"
  "cursor (lastAgentTimestamp (example_state seen agent_seen)) ''tg:100'' = agent_seen"
  by (simp_all add: example_state_def cursor_def)




text \<open>
  Claim C5. In an iteration that observes new messages, the first effect is
  \<^verbatim>\<open>saveState\<close> with \<^verbatim>\<open>lastTimestamp = newTimestamp\<close>; the effects of the per-group
  work follow it, and afterwards \<^verbatim>\<open>lastTimestamp\<close> and its database row are
  \<^verbatim>\<open>newTimestamp\<close>. With \<^verbatim>\<open>getNewMessages\<close> as the spec describes it,
  \<^verbatim>\<open>lastTimestamp\<close> never decreases over any sequence of loop iterations and calls of
  \<^verbatim>\<open>processGroupMessages\<close>.
\<close>

theorem lastTimestamp_advanced_first_and_monotone:
  assumes "\<forall>t \<in> set turns. store_backed t"
  shows "(case getNewMessages e (map fst (registeredGroups e)) (lastTimestamp s) (ASSISTANT_NAME e) of
            (messages, newTimestamp) \<Rightarrow>
              messages \<noteq> [] \<longrightarrow>
              (case messageLoopIteration e s of
                 (oc, s', trace) \<Rightarrow>
                   lastTimestamp s' = newTimestamp \<and> db_last_timestamp s' = newTimestamp \<and>
                   trace = SaveState newTimestamp (lastAgentTimestamp s)
                     # snd (snd (routeGroups e (messagesByGroup messages)
                          (s\<lparr>lastTimestamp := newTimestamp, db_last_timestamp := newTimestamp,
                             db_last_agent_timestamp := lastAgentTimestamp s\<rparr>))))) \<and>
         lastTimestamp s0 \<le> lastTimestamp (fst (runRouter turns s0))"
proof -
  obtain messages newTimestamp where gn:
    "getNewMessages e (map fst (registeredGroups e)) (lastTimestamp s) (ASSISTANT_NAME e)
       = (messages, newTimestamp)"
    by (cases "getNewMessages e (map fst (registeredGroups e)) (lastTimestamp s) (ASSISTANT_NAME e)")
  define s1 where "s1 = s\<lparr>lastTimestamp := newTimestamp, db_last_timestamp := newTimestamp,
                           db_last_agent_timestamp := lastAgentTimestamp s\<rparr>"
  obtain oc2 s2 ev2 where rg: "routeGroups e (messagesByGroup messages) s1 = (oc2, s2, ev2)"
    by (cases "routeGroups e (messagesByGroup messages) s1") auto
  have it: "messages \<noteq> [] \<Longrightarrow> messageLoopIteration e s =
              (oc2, s2, SaveState newTimestamp (lastAgentTimestamp s) # ev2)"
    using gn rg by (simp add: messageLoopIteration_def saveState_def s1_def)
  have "lastTimestamp s2 = newTimestamp" "db_last_timestamp s2 = newTimestamp"
    using routeGroups_seen[OF rg] by (simp_all add: s1_def)
  with it rg have first: "messages \<noteq> [] \<longrightarrow>
      (case messageLoopIteration e s of
         (oc, s', trace) \<Rightarrow>
           lastTimestamp s' = newTimestamp \<and> db_last_timestamp s' = newTimestamp \<and>
           trace = SaveState newTimestamp (lastAgentTimestamp s)
             # snd (snd (routeGroups e (messagesByGroup messages) s1)))"
    by simp
  obtain s' ev where rr: "runRouter turns s0 = (s', ev)"
    by (cases "runRouter turns s0") auto
  from runRouter_seen[OF assms rr] rr
  have "lastTimestamp s0 \<le> lastTimestamp (fst (runRouter turns s0))" by simp
  with first gn show ?thesis by (simp add: s1_def)
qed

text \<open>
  Two messages are observed from cursor 0: timestamp 2 is saved first. Over a poll, a run
  of the agent and another poll, \<^verbatim>\<open>lastTimestamp\<close> does not decrease.
\<close>

theorem lastTimestamp_advanced_first_and_monotone_witness:
  "(case messageLoopIteration (example_env example_rows False) (example_state ''0'' ''0'') of
      (oc, s', trace) \<Rightarrow>
        lastTimestamp s' = ''2'' \<and> db_last_timestamp s' = ''2'' \<and>
        hd trace = SaveState ''2'' [''tg:100'' \<mapsto> ''0'']) \<and>
   lastTimestamp (example_state ''0'' ''0'') \<le>
     lastTimestamp (fst (runRouter
       [Poll (example_env example_rows False),
        Work (example_env example_rows False)
          \<lparr>stream = [Output (record_of Success (RString ''hello''))],
           final = Some (record_of Success RNull)\<rparr> ''tg:100'',
        Poll (example_env (example_rows @ [example_message ''3'' ''wait'']) True)]
       (example_state ''0'' ''0'')))"
proof -
  let ?turns = "[Poll (example_env example_rows False),
        Work (example_env example_rows False)
          \<lparr>stream = [Output (record_of Success (RString ''hello''))],
           final = Some (record_of Success RNull)\<rparr> ''tg:100'',
        Poll (example_env (example_rows @ [example_message ''3'' ''wait'']) True)]"
  have sb: "\<forall>t \<in> set ?turns. store_backed t"
    by (auto simp: store_backed_def example_env_fields)
  have g: "store_getNewMessages example_rows [''tg:100''] ''0'' n = (example_rows, ''2'')" for n
    by (simp add: store_getNewMessages_def example_rows_def example_message_fields
        less_char_def max_def)
  have ne: "example_rows \<noteq> []" by (simp add: example_rows_def)
  from lastTimestamp_advanced_first_and_monotone[OF sb,
      where e = "example_env example_rows False" and s = "example_state ''0'' ''0''"
        and ?s0.0 = "example_state ''0'' ''0''"]
  show ?thesis
    by (simp add: example_env_fields example_state_fields g ne split: prod.splits)
qed

section \<open>Properties of the singleton lock\<close>








section \<open>Properties of \<^verbatim>\<open>TelegramChannel.sendMessage\<close>\<close>

lemma sendChunks_later:
  assumes "\<forall>k cid chunk. api_sendMessage tg k cid chunk \<noteq> None" and "0 < i"
  shows "concat (sent_texts (sendChunks tg b jid text i)) = drop i text \<and>
         (\<forall>c \<in> set (sent_texts (sendChunks tg b jid text i)). 0 < length c \<and> length c \<le> MAX_LENGTH) \<and>
         stored_messages (sendChunks tg b jid text i) = []"
  using assms
proof (induction tg b jid "text" i rule: sendChunks.induct)
  case (1 tg b jid message_text i)
  show ?case
  proof (cases "i < length message_text")
    case False
    then show ?thesis
      by (simp add: sendChunks.simps[of tg b jid message_text i] sent_texts_def stored_messages_def)
  next
    case True
    let ?chunk = "take MAX_LENGTH (drop i message_text)"
    from "1.prems"(1) obtain m where m: "api_sendMessage tg (i div MAX_LENGTH) (numericId jid) ?chunk = Some m"
      by (cases "api_sendMessage tg (i div MAX_LENGTH) (numericId jid) ?chunk") fastforce+
    have step: "sendChunks tg b jid message_text i =
        ApiSendMessage (numericId jid) ?chunk (Some m) # sendChunks tg b jid message_text (i + MAX_LENGTH)"
      using True m "1.prems"(2) by (simp add: sendChunks.simps[of tg b jid message_text i])
    have ih: "concat (sent_texts (sendChunks tg b jid message_text (i + MAX_LENGTH))) = drop (i + MAX_LENGTH) message_text \<and>
         (\<forall>c \<in> set (sent_texts (sendChunks tg b jid message_text (i + MAX_LENGTH))). 0 < length c \<and> length c \<le> MAX_LENGTH) \<and>
         stored_messages (sendChunks tg b jid message_text (i + MAX_LENGTH)) = []"
      using "1.IH"[OF True refl m] "1.prems" by simp
    have len: "0 < length ?chunk" "length ?chunk \<le> MAX_LENGTH"
      using True by (simp_all add: MAX_LENGTH_def)
    have cat: "?chunk @ drop (i + MAX_LENGTH) message_text = drop i message_text"
      by (metis add.commute append_take_drop_id drop_drop)
    show ?thesis
      unfolding step using ih len cat
      by (simp add: sent_texts_def stored_messages_def)
  qed
qed

text \<open>
  Claim C9. With the bot connected and the API accepting every call, for every text:
  a text of at most 4096 code units is sent as one message; a longer text is sent as
  consecutive chunks, in order, each of at least one and at most 4096 code units, which
  together are the text, the first of them its first 4096 code units. In both cases,
  when \<^verbatim>\<open>onOutgoingMessage\<close> is there, exactly one message is stored, right after the
  first call, with the whole text as content and \<^verbatim>\<open>is_bot_message = true\<close>.
\<close>

theorem sendMessage_single_or_chunks:
  assumes "bot tg = Some b"
    and "\<forall>k cid chunk. api_sendMessage tg k cid chunk \<noteq> None"
  shows "(length text \<le> 4096 \<longrightarrow> sent_texts (sendMessage tg jid text) = [text]) \<and>
         (4096 < length text \<longrightarrow>
            concat (sent_texts (sendMessage tg jid text)) = text \<and>
            (\<forall>c \<in> set (sent_texts (sendMessage tg jid text)). 0 < length c \<and> length c \<le> 4096) \<and>
            hd (sent_texts (sendMessage tg jid text)) = take 4096 text) \<and>
         (onOutgoing tg \<longrightarrow>
            (\<exists>message_id rest.
               sendMessage tg jid text =
                 ApiSendMessage (numericId jid) (take 4096 text) (Some message_id)
                 # OnOutgoingMessage jid (outgoing_of tg b jid text message_id) # rest \<and>
               stored_messages rest = [] \<and>
               o_content (outgoing_of tg b jid text message_id) = text \<and>
               o_is_bot_message (outgoing_of tg b jid text message_id)))"
proof (cases "length text \<le> 4096")
  case True
  from assms(2) obtain m where m: "api_sendMessage tg 0 (numericId jid) text = Some m"
    by (cases "api_sendMessage tg 0 (numericId jid) text") fastforce+
  have sm: "sendMessage tg jid text =
      ApiSendMessage (numericId jid) text (Some m) # storeOutgoing tg b jid text m
      @ [LogInfoSent jid (length text)]"
    using assms(1) True m by (simp add: sendMessage_def MAX_LENGTH_def)
  show ?thesis
    unfolding sm using True
    by (auto simp: sent_texts_def stored_messages_def storeOutgoing_def outgoing_of_def)
next
  case False
  let ?chunk = "take MAX_LENGTH text"
  from assms(2) obtain m where m: "api_sendMessage tg 0 (numericId jid) ?chunk = Some m"
    by (cases "api_sendMessage tg 0 (numericId jid) ?chunk") fastforce+
  have pos: "0 < length text" using False by (cases "text") simp_all
  have sm: "sendMessage tg jid text =
      ApiSendMessage (numericId jid) ?chunk (Some m) # storeOutgoing tg b jid text m
      @ sendChunks tg b jid text MAX_LENGTH"
    using assms(1) False m pos
    by (simp add: sendMessage_def sendChunks.simps[of tg b jid "text" 0] MAX_LENGTH_def)
  have later: "concat (sent_texts (sendChunks tg b jid text MAX_LENGTH)) = drop MAX_LENGTH text \<and>
         (\<forall>c \<in> set (sent_texts (sendChunks tg b jid text MAX_LENGTH)). 0 < length c \<and> length c \<le> MAX_LENGTH) \<and>
         stored_messages (sendChunks tg b jid text MAX_LENGTH) = []"
    by (rule sendChunks_later[OF assms(2)]) (simp add: MAX_LENGTH_def)
  have st: "sent_texts (storeOutgoing tg b jid text m) = []"
    by (simp add: sent_texts_def storeOutgoing_def)
  have split: "sent_texts (sendMessage tg jid text) =
      ?chunk # sent_texts (sendChunks tg b jid text MAX_LENGTH)"
    unfolding sm using st by (simp add: sent_texts_def)
  have a: "concat (sent_texts (sendMessage tg jid text)) = text"
    unfolding split using later by simp
  have b: "\<forall>c \<in> set (sent_texts (sendMessage tg jid text)). 0 < length c \<and> length c \<le> 4096"
    unfolding split using later pos by (simp add: MAX_LENGTH_def)
  have c: "hd (sent_texts (sendMessage tg jid text)) = take 4096 text"
    unfolding split by (simp add: MAX_LENGTH_def)
  have d: "onOutgoing tg \<Longrightarrow>
      sendMessage tg jid text =
        ApiSendMessage (numericId jid) (take 4096 text) (Some m)
        # OnOutgoingMessage jid (outgoing_of tg b jid text m) # sendChunks tg b jid text MAX_LENGTH"
    unfolding sm by (simp add: storeOutgoing_def MAX_LENGTH_def)
  have e: "o_content (outgoing_of tg b jid text m) = text \<and>
           o_is_bot_message (outgoing_of tg b jid text m)"
    by (simp add: outgoing_of_def)
  from False a b c d e later show ?thesis by auto
qed

text \<open>A short text, and a text of 5000 code units.\<close>

theorem sendMessage_single_or_chunks_witness:
  "sent_texts (sendMessage example_telegram ''tg:100'' ''hello'') = [''hello''] \<and>
   concat (sent_texts (sendMessage example_telegram ''tg:100'' (replicate 5000 (CHR ''a''))))
     = replicate 5000 (CHR ''a'') \<and>
   hd (sent_texts (sendMessage example_telegram ''tg:100'' (replicate 5000 (CHR ''a''))))
     = replicate 4096 (CHR ''a'') \<and>
   (\<exists>message_id rest.
      sendMessage example_telegram ''tg:100'' (replicate 5000 (CHR ''a'')) =
        ApiSendMessage ''100'' (replicate 4096 (CHR ''a'')) (Some message_id)
        # OnOutgoingMessage ''tg:100''
            (outgoing_of example_telegram \<lparr>bot_id = 777, bot_username = Some ''andy_ai_bot''\<rparr>
               ''tg:100'' (replicate 5000 (CHR ''a'')) message_id)
        # rest \<and>
      stored_messages rest = [])"
proof -
  have h1: "bot example_telegram = Some \<lparr>bot_id = 777, bot_username = Some ''andy_ai_bot''\<rparr>"
    by (simp add: example_telegram_def)
  have h2: "\<forall>k cid chunk. api_sendMessage example_telegram k cid chunk \<noteq> None"
    by (simp add: example_telegram_def)
  have o: "onOutgoing example_telegram" by (simp add: example_telegram_def)
  have n: "numericId ''tg:100'' = ''100''" by (simp add: numericId_def startsWith_def)
  note short = sendMessage_single_or_chunks[OF h1 h2, of "''hello''" "''tg:100''"]
  note long = sendMessage_single_or_chunks[OF h1 h2, of "replicate 5000 (CHR ''a'')" "''tg:100''"]
  from short have 1: "sent_texts (sendMessage example_telegram ''tg:100'' ''hello'') = [''hello'']"
    by simp
  from long o n show ?thesis
    by (simp add: 1) blast
qed

section \<open>Properties of the \<^verbatim>\<open>.env\<close> file\<close>

lemma split_nl_nonempty: "split_nl s \<noteq> []"
  by (induction s) (auto split: list.splits)

lemma split_nl_no_newline: "l \<in> set (split_nl s) \<Longrightarrow> CHR 0x0A \<notin> set l"
proof (induction s arbitrary: l)
  case Nil
  then show ?case by simp
next
  case (Cons c cs)
  show ?case
  proof (cases "c = CHR 0x0A")
    case True
    with Cons show ?thesis by auto
  next
    case False
    obtain h t where ht: "split_nl cs = h # t"
      using split_nl_nonempty[of cs] by (cases "split_nl cs") auto
    with Cons.prems False have "l = c # h \<or> l \<in> set t" by simp
    then show ?thesis
    proof
      assume "l = c # h"
      moreover have "CHR 0x0A \<notin> set h" using Cons.IH[of h] ht by simp
      ultimately show ?thesis using False by simp
    next
      assume "l \<in> set t"
      then show ?thesis using Cons.IH[of l] ht by simp
    qed
  qed
qed

lemma split_nl_append:
  "CHR 0x0A \<notin> set l \<Longrightarrow> split_nl (l @ CHR 0x0A # rest) = l # split_nl rest"
  by (induction l) auto

lemma split_nl_line: "CHR 0x0A \<notin> set l \<Longrightarrow> split_nl l = [l]"
  by (induction l) auto

lemma split_join_nl:
  "ls \<noteq> [] \<Longrightarrow> \<forall>l \<in> set ls. CHR 0x0A \<notin> set l \<Longrightarrow> split_nl (join_nl ls) = ls"
proof (induction ls rule: join_nl.induct)
  case 1
  then show ?case by simp
next
  case (2 l)
  then show ?case by (simp add: split_nl_line)
next
  case (3 l m ls)
  then show ?case by (simp add: split_nl_append)
qed

lemma split_nl_snoc_newline:
  "split_nl (s @ [CHR 0x0A]) = split_nl s @ [[]]"
proof (induction s)
  case Nil
  then show ?case by simp
next
  case (Cons c cs)
  obtain h t where ht: "split_nl cs = h # t"
    using split_nl_nonempty[of cs] by (cases "split_nl cs") auto
  with Cons show ?case by simp
qed

lemma js_trim_fixed:
  assumes "s \<noteq> []" and "\<not> is_space (hd s)" and "\<not> is_space (last s)"
  shows "js_trim s = s"
proof -
  from assms(1,2) have a: "dropWhile is_space s = s" by (cases s) auto
  from assms(1) obtain ys y where s: "s = ys @ [y]" by (cases s rule: rev_cases) auto
  with assms(3) have "dropWhile is_space (rev s) = rev s" by simp
  with a show ?thesis by (simp add: js_trim_def)
qed

lemma js_trim_ends:
  assumes "js_trim s = s" and "s \<noteq> []"
  shows "\<not> is_space (hd s) \<and> \<not> is_space (last s)"
proof -
  have le: "length (js_trim s) \<le> length (dropWhile is_space s)"
    using length_dropWhile_le[of is_space "rev (dropWhile is_space s)"]
    by (simp add: js_trim_def)
  have h: "\<not> is_space (hd s)"
  proof
    assume "is_space (hd s)"
    with assms(2) have "length (dropWhile is_space s) < length s"
      by (cases s) (auto simp: le_imp_less_Suc length_dropWhile_le)
    with le assms(1) show False by simp
  qed
  with assms(2) have d: "dropWhile is_space s = s" by (cases s) auto
  have "\<not> is_space (last s)"
  proof
    assume sp: "is_space (last s)"
    from assms(2) obtain ys y where s: "s = ys @ [y]" by (cases s rule: rev_cases) auto
    with sp have "length (dropWhile is_space (rev s)) < length (rev s)"
      using length_dropWhile_le[of is_space "rev ys"] by simp
    moreover have "length (js_trim s) = length (dropWhile is_space (rev s))"
      using d by (simp add: js_trim_def)
    ultimately show False using assms(1) by simp
  qed
  with h show ?thesis by simp
qed

lemma line_entry_written:
  assumes "CHR ''='' \<notin> set k" and "js_trim k = k" and "\<not> startsWith k ''#''"
    and "v \<noteq> []" and "js_trim v = v"
  shows "line_entry (k @ ''='' @ v) = Some (k, v)"
proof -
  let ?L = "k @ ''='' @ v"
  have ne: "?L \<noteq> []" by simp
  have hdL: "hd ?L = (if k = [] then CHR ''='' else hd k)" by (cases k) auto
  have eq_ns: "\<not> is_space (CHR ''='')" by (simp add: is_space_def)
  have "\<not> is_space (hd ?L)"
    using js_trim_ends[OF assms(2)] eq_ns unfolding hdL by auto
  moreover have "\<not> is_space (last ?L)"
    using js_trim_ends[OF assms(5,4)] assms(4) by simp
  ultimately have tr: "js_trim ?L = ?L" by (rule js_trim_fixed[OF ne])
  have nc: "\<not> startsWith ?L ''#''"
    using assms(3) by (cases k) (auto simp: startsWith_def)
  have "takeWhile (\<lambda>c. c \<noteq> CHR ''='') (k @ CHR ''='' # v)
          = k @ takeWhile (\<lambda>c. c \<noteq> CHR ''='') (CHR ''='' # v)"
    by (rule takeWhile_append2) (use assms(1) in auto)
  then have tw: "takeWhile (\<lambda>c. c \<noteq> CHR ''='') ?L = k" by simp
  show ?thesis
    unfolding line_entry_def tr Let_def tw using nc assms(2) by simp
qed

lemma update_line_single:
  "update_line [(k, v)] line (newLines, foundKeys) =
     (newLines @ [if line_key line = Some k then k @ ''='' @ v else line],
      if line_key line = Some k then k # foundKeys else foundKeys)"
  by (auto simp: update_line_def line_key_def split: option.splits)

lemma fold_update_line_single:
  "\<exists>found. fold (update_line [(k, v)]) lines (acc, foundKeys) =
       (acc @ map (\<lambda>line. if line_key line = Some k then k @ ''='' @ v else line) lines, found) \<and>
     (k \<in> set found \<longleftrightarrow> k \<in> set foundKeys \<or> (\<exists>line \<in> set lines. line_key line = Some k))"
proof (induction lines arbitrary: acc foundKeys)
  case Nil
  then show ?case by simp
next
  case (Cons line lines)
  show ?case
    unfolding fold_Cons comp_apply update_line_single
    using Cons.IH[of "acc @ [if line_key line = Some k then k @ ''='' @ v else line]"
        "if line_key line = Some k then k # foundKeys else foundKeys"]
    by auto
qed

lemma updateEnvFile_single:
  "updateEnvFile [(k, v)] file =
     join_nl (map (\<lambda>line. if line_key line = Some k then k @ ''='' @ v else line)
                (split_nl (file_contents file))
              @ (if \<exists>line \<in> set (split_nl (file_contents file)). line_key line = Some k
                 then [] else [k @ ''='' @ v]))
     @ [CHR 0x0A]"
proof -
  from fold_update_line_single[of k v "split_nl (file_contents file)" "[]" "[]"]
  obtain found where
    f: "fold (update_line [(k, v)]) (split_nl (file_contents file)) ([], []) =
          (map (\<lambda>line. if line_key line = Some k then k @ ''='' @ v else line)
             (split_nl (file_contents file)), found)"
    and m: "k \<in> set found \<longleftrightarrow> (\<exists>line \<in> set (split_nl (file_contents file)). line_key line = Some k)"
    by auto
  have c: "(case file of None \<Rightarrow> [] | Some c \<Rightarrow> c) = file_contents file"
    by (simp add: file_contents_def)
  show ?thesis
    unfolding updateEnvFile_def c Let_def f using m by simp
qed

lemma read_line_other:
  "line_key line \<noteq> Some k \<Longrightarrow> read_line [k] line result = result"
  by (auto simp: read_line_def line_key_def split: option.splits)

lemma read_line_written:
  assumes "CHR ''='' \<notin> set k" and "js_trim k = k" and "\<not> startsWith k ''#''"
    and "k \<noteq> ''__proto__''"
    and "v \<noteq> []" and "js_trim v = v" and "\<not> quoted v"
  shows "read_line [k] (k @ ''='' @ v) result = result(k \<mapsto> v)"
  unfolding read_line_def line_entry_written[OF assms(1,2,3,5,6)]
  using assms(4,5,6,7)
  by (simp add: unquote_def set_property_def)

lemma fold_read_line:
  assumes "\<And>result. read_line [k] written result = result(k \<mapsto> v)"
    and "\<forall>line \<in> set lines. line = written \<or> line_key line \<noteq> Some k"
  shows "fold (read_line [k]) lines result =
           (if written \<in> set lines then result(k \<mapsto> v) else result)"
  using assms(2)
proof (induction lines arbitrary: result)
  case Nil
  then show ?case by simp
next
  case (Cons line lines)
  from Cons.prems have rest: "\<forall>line \<in> set lines. line = written \<or> line_key line \<noteq> Some k"
    by simp
  show ?case
  proof (cases "line = written")
    case True
    have "fold (read_line [k]) (line # lines) result =
            fold (read_line [k]) lines (result(k \<mapsto> v))"
      unfolding True fold_Cons comp_apply assms(1) ..
    also have "\<dots> = (if written \<in> set lines then (result(k \<mapsto> v))(k \<mapsto> v)
                      else result(k \<mapsto> v))"
      by (rule Cons.IH[OF rest])
    also have "\<dots> = result(k \<mapsto> v)" by simp
    finally show ?thesis using True by simp
  next
    case False
    with Cons.prems have "line_key line \<noteq> Some k" by simp
    then show ?thesis
      using Cons.IH[OF rest, of result] False by (simp add: read_line_other)
  qed
qed

text \<open>
  Claim C10, amended. Let the key \<open>k\<close> contain neither \<^verbatim>\<open>=\<close> nor a newline, have no
  white space at its ends, not start with \<^verbatim>\<open>#\<close> and not be \<^verbatim>\<open>__proto__\<close>; let the value
  \<open>v\<close> be non-empty, contain no newline, have no white space at its ends and not be
  enclosed in quotes. Then after \<^verbatim>\<open>updateEnvFile({k: v})\<close>, \<^verbatim>\<open>readEnvFile([k])\<close> returns
  exactly the record that maps \<open>k\<close> to \<open>v\<close>, whether the file was missing, had no line for
  \<open>k\<close> or had some. The lines of the new file are the old lines, each line whose key is
  \<open>k\<close> replaced by \<^verbatim>\<open>k=v\<close> and every other line unchanged, then \<^verbatim>\<open>k=v\<close> if no line had
  the key \<open>k\<close>, then the empty line after the final newline.
\<close>

theorem env_update_then_read:
  assumes "CHR ''='' \<notin> set k" and "CHR 0x0A \<notin> set k" and "js_trim k = k"
    and "\<not> startsWith k ''#''" and "k \<noteq> ''__proto__''"
    and "v \<noteq> []" and "CHR 0x0A \<notin> set v" and "js_trim v = v" and "\<not> quoted v"
  shows "readEnvFile [k] (Some (updateEnvFile [(k, v)] file)) = [k \<mapsto> v] \<and>
         split_nl (updateEnvFile [(k, v)] file) =
           map (\<lambda>line. if line_key line = Some k then k @ ''='' @ v else line)
             (split_nl (file_contents file))
           @ (if \<exists>line \<in> set (split_nl (file_contents file)). line_key line = Some k
              then [] else [k @ ''='' @ v])
           @ [[]]"
proof -
  let ?w = "k @ ''='' @ v"
  let ?old = "split_nl (file_contents file)"
  let ?new = "map (\<lambda>line. if line_key line = Some k then ?w else line) ?old
              @ (if \<exists>line \<in> set ?old. line_key line = Some k then [] else [?w])"
  have w_nl: "CHR 0x0A \<notin> set ?w" using assms(2,7) by simp
  have new_nl: "\<forall>l \<in> set ?new. CHR 0x0A \<notin> set l"
    using w_nl split_nl_no_newline[of _ "file_contents file"] by auto
  have new_ne: "?new \<noteq> []" using split_nl_nonempty[of "file_contents file"] by simp
  have lines: "split_nl (updateEnvFile [(k, v)] file) = ?new @ [[]]"
    unfolding updateEnvFile_single split_nl_snoc_newline
    using split_join_nl[OF new_ne new_nl] by simp
  have blank: "line_key [] \<noteq> Some k"
    by (simp add: line_key_def line_entry_def js_trim_def)
  have shape: "\<forall>line \<in> set (?new @ [[]]). line = ?w \<or> line_key line \<noteq> Some k"
    using blank by auto
  have present: "?w \<in> set (?new @ [[]])" by auto
  have "readEnvFile [k] (Some (updateEnvFile [(k, v)] file)) =
          fold (read_line [k]) (?new @ [[]]) Map.empty"
    by (simp add: readEnvFile_def lines)
  also have "\<dots> = [k \<mapsto> v]"
    using fold_read_line[of k ?w v "?new @ [[]]" Map.empty,
        OF read_line_written[OF assms(1,3,4,5,6,8,9)] shape] present
    by (simp del: fold_append map_append)
  finally show ?thesis using lines by simp
qed

text \<open>Setting \<^verbatim>\<open>DEFAULT_MODEL\<close> in a file that has it, and with no file.\<close>

theorem env_update_then_read_witness:
  "readEnvFile [''DEFAULT_MODEL'']
     (Some (updateEnvFile [(''DEFAULT_MODEL'', ''model-b'')] (Some example_env_file)))
     = [''DEFAULT_MODEL'' \<mapsto> ''model-b''] \<and>
   split_nl (updateEnvFile [(''DEFAULT_MODEL'', ''model-b'')] (Some example_env_file))
     = [''# models'', ''DEFAULT_MODEL=model-b'', ''TOKEN = abc'', [], []] \<and>
   readEnvFile [''DEFAULT_MODEL''] (Some (updateEnvFile [(''DEFAULT_MODEL'', ''model-b'')] None))
     = [''DEFAULT_MODEL'' \<mapsto> ''model-b''] \<and>
   split_nl (updateEnvFile [(''DEFAULT_MODEL'', ''model-b'')] None)
     = [[], ''DEFAULT_MODEL=model-b'', []]"
proof -
  have k: "CHR ''='' \<notin> set ''DEFAULT_MODEL''" "CHR 0x0A \<notin> set ''DEFAULT_MODEL''"
    "js_trim ''DEFAULT_MODEL'' = ''DEFAULT_MODEL''" "\<not> startsWith ''DEFAULT_MODEL'' ''#''"
    "''DEFAULT_MODEL'' \<noteq> ''__proto__''"
    by (simp_all add: js_trim_def is_space_def startsWith_def)
  have v: "''model-b'' \<noteq> []" "CHR 0x0A \<notin> set ''model-b''" "js_trim ''model-b'' = ''model-b''"
    "\<not> quoted ''model-b''"
    by (simp_all add: js_trim_def is_space_def quoted_def startsWith_def endsWith_def)
  note there = env_update_then_read[OF k v, of "Some example_env_file"]
  note absent = env_update_then_read[OF k v, of None]
  have old: "split_nl (file_contents (Some example_env_file))
               = [''# models'', ''DEFAULT_MODEL=model-a'', ''TOKEN = abc'', []]"
    by (simp add: file_contents_def example_env_file_def)
  have keys: "line_key ''# models'' = None" "line_key ''DEFAULT_MODEL=model-a'' = Some ''DEFAULT_MODEL''"
    "line_key ''TOKEN = abc'' = Some ''TOKEN''" "line_key [] = None"
    by (simp_all add: line_key_def line_entry_def js_trim_def is_space_def startsWith_def)
  have none: "split_nl (file_contents None) = [[]]" by (simp add: file_contents_def)
  from there absent show ?thesis
    unfolding old none by (simp add: keys)
qed

text \<open>
  Claim C10 as stated fails: the value made of a space and \<^verbatim>\<open>x\<close> is non-empty, on
  one line and without quotes, and is read back as \<^verbatim>\<open>x\<close> alone; the key
  \<^verbatim>\<open>A=B\<close> is not read back at all.
\<close>

theorem env_read_trims_written_value:
  "readEnvFile [''KEY''] (Some (updateEnvFile [(''KEY'', '' x'')] None)) = [''KEY'' \<mapsto> ''x''] \<and>
   readEnvFile [''KEY''] (Some (updateEnvFile [(''KEY'', '' x'')] None)) \<noteq> [''KEY'' \<mapsto> '' x''] \<and>
   readEnvFile [''A=B''] (Some (updateEnvFile [(''A=B'', ''1'')] None)) = Map.empty"
proof -
  have a: "readEnvFile [''KEY''] (Some (updateEnvFile [(''KEY'', '' x'')] None)) = [''KEY'' \<mapsto> ''x'']"
    by (simp add: readEnvFile_def updateEnvFile_def update_line_def line_entry_def js_trim_def
      is_space_def startsWith_def endsWith_def read_line_def unquote_def quoted_def set_property_def)
  have b: "readEnvFile [''A=B''] (Some (updateEnvFile [(''A=B'', ''1'')] None)) = Map.empty"
    by (simp add: readEnvFile_def updateEnvFile_def update_line_def line_entry_def js_trim_def
      is_space_def startsWith_def endsWith_def read_line_def unquote_def quoted_def set_property_def)
  have "[''KEY'' \<mapsto> ''x''] ''KEY'' \<noteq> [''KEY'' \<mapsto> '' x''] ''KEY''" by simp
  then have c: "[''KEY'' \<mapsto> ''x''] \<noteq> [''KEY'' \<mapsto> '' x'']" by metis
  from a b c show ?thesis by simp
qed

end
